theory Spec2Isabelle
  imports Complex_Main "HOL-Library.Word" "HOL-Library.Multiset"
begin

section \<open>Conventions of the embedding\<close>

text \<open>
  The development embeds \<^verbatim>\<open>vdb.h\<close> as compiled without \<^verbatim>\<open>VDB_MULTITHREADED\<close>
  (the lock calls vanish) for an LP64 little-endian target: \<^verbatim>\<open>size_t\<close> has 8 bytes,
  \<^verbatim>\<open>uint32_t\<close>, \<^verbatim>\<open>float\<close> and the enum \<^verbatim>\<open>vdb_metric\<close> have 4.

  \<^item> A pointer that may be \<^verbatim>\<open>NULL\<close> is an \<open>option\<close>; \<open>None\<close> is \<^verbatim>\<open>NULL\<close>.
  \<^item> A \<^verbatim>\<open>const float*\<close> argument is the list of the floats that can be read from it;
    a \<^verbatim>\<open>const char*\<close> argument is the list of the bytes of its buffer before the final
    terminating NUL (\<^verbatim>\<open>strlen\<close> stops at the first NUL byte, which may come earlier).
  \<^item> Behaviour that C leaves undefined is a value \<open>Inl fault\<close> of the result.
  \<^item> \<^verbatim>\<open>size_t\<close> values are natural numbers. The products
    \<^verbatim>\<open>dimensions * sizeof(float)\<close> and \<^verbatim>\<open>id_len + 1\<close>, whose operands a caller or a file
    chooses freely, are reduced modulo \<open>2 ^ 64\<close> and \<open>2 ^ 32\<close> as the source computes them;
    \<^verbatim>\<open>count\<close> and \<^verbatim>\<open>capacity\<close> count records that exist in memory, stay far below
    \<open>2 ^ 59\<close>, and are not reduced.
  \<^item> A \<^verbatim>\<open>float\<close> is stored as its 32-bit pattern, which is what \<^verbatim>\<open>memcpy\<close>,
    \<^verbatim>\<open>fwrite\<close> and \<^verbatim>\<open>fread\<close> move. The metric functions compute with the real number
    the pattern denotes (\<open>valof\<close>) in exact real arithmetic: rounding, infinities and NaN
    are outside this idealisation, and \<^verbatim>\<open>sqrtf\<close> is the real square root.
  \<^item> The allocator is an explicit argument: a list of the outcomes of the coming
    allocation requests and the number of blocks that are allocated and not yet freed.
\<close>

type_synonym byte = "8 word"
type_synonym float = "32 word"

datatype fault = Out_Of_Bounds_Read | Heap_Buffer_Overflow

subsection \<open>The allocator (\<^verbatim>\<open>VDB_MALLOC\<close>, \<^verbatim>\<open>VDB_REALLOC\<close>, \<^verbatim>\<open>VDB_FREE\<close>)\<close>

record heap =
  outcomes :: "bool list"
  live :: int

text \<open>A request takes the next outcome; when the list is used up every request succeeds.\<close>

definition VDB_MALLOC :: "heap \<Rightarrow> bool \<times> heap" where
  "VDB_MALLOC h =
     (case outcomes h of
        [] \<Rightarrow> (True, h\<lparr>live := live h + 1\<rparr>)
      | ok # rest \<Rightarrow> (ok, h\<lparr>outcomes := rest, live := (if ok then live h + 1 else live h)\<rparr>))"

text \<open>\<open>VDB_REALLOC old h\<close>: \<open>old\<close> says that the block to resize exists (is not \<^verbatim>\<open>NULL\<close>).\<close>

definition VDB_REALLOC :: "bool \<Rightarrow> heap \<Rightarrow> bool \<times> heap" where
  "VDB_REALLOC old h =
     (case outcomes h of
        [] \<Rightarrow> (True, h\<lparr>live := (if old then live h else live h + 1)\<rparr>)
      | ok # rest \<Rightarrow>
          (ok, h\<lparr>outcomes := rest, live := (if ok \<and> \<not> old then live h + 1 else live h)\<rparr>))"

text \<open>\<open>VDB_FREE p h\<close>: \<open>p\<close> says that the pointer is not \<^verbatim>\<open>NULL\<close>; \<^verbatim>\<open>free(NULL)\<close> does nothing.\<close>

definition VDB_FREE :: "bool \<Rightarrow> heap \<Rightarrow> heap" where
  "VDB_FREE p h = (if p then h\<lparr>live := live h - 1\<rparr> else h)"

definition never_fails :: "heap \<Rightarrow> bool" where
  "never_fails h \<longleftrightarrow> list_all (\<lambda>ok. ok) (outcomes h)"

section \<open>Data model (vdb.h, lines 26--69)\<close>

datatype vdb_error =
    VDB_OK
  | VDB_ERROR_NULL_POINTER
  | VDB_ERROR_INVALID_DIMENSIONS
  | VDB_ERROR_OUT_OF_MEMORY
  | VDB_ERROR_NOT_FOUND
  | VDB_ERROR_INVALID_INDEX
  | VDB_ERROR_THREAD_FAILURE

text \<open>
  A C enum object can hold any value of its underlying integer type (\<^verbatim>\<open>vdb_load\<close> reads
  the metric from the file unchecked, and \<^verbatim>\<open>vdb_compute_distance\<close> has a \<^verbatim>\<open>default\<close>
  branch), so the metric is its 32-bit ordinal.
\<close>

type_synonym vdb_metric = "32 word"

definition VDB_METRIC_COSINE :: vdb_metric where
  "VDB_METRIC_COSINE = 0"

definition VDB_METRIC_EUCLIDEAN :: vdb_metric where
  "VDB_METRIC_EUCLIDEAN = 1"

definition VDB_METRIC_DOT_PRODUCT :: vdb_metric where
  "VDB_METRIC_DOT_PRODUCT = 2"

record vdb_vector =
  v_data :: "float list"
  v_id :: "byte list option"
  v_metadata :: "nat option"

text \<open>
  \<open>db_vectors\<close> is the array behind \<^verbatim>\<open>db->vectors\<close>, a function from the slot index. Only
  the slots below \<open>db_count\<close> are ever read by the source; the others hold whatever the
  function holds there. The array pointer itself is \<^verbatim>\<open>NULL\<close> exactly when \<open>db_capacity\<close>
  is 0 (\<^verbatim>\<open>vdb_create\<close> sets both, \<^verbatim>\<open>vdb_add_vector\<close> changes both together).
\<close>

record vdb_database =
  db_vectors :: "nat \<Rightarrow> vdb_vector"
  db_count :: nat
  db_capacity :: nat
  db_dimensions :: nat
  db_metric :: vdb_metric

record vdb_result =
  r_index :: nat
  r_distance :: real
  r_id :: "byte list option"
  r_metadata :: "nat option"

record vdb_result_set =
  rs_results :: "vdb_result list"
  rs_count :: nat

section \<open>Metric engine (vdb.h, lines 82--137)\<close>

text \<open>The real number an IEEE 754 binary32 pattern denotes (sign, 8 exponent bits, 23 fraction bits).\<close>

definition valof :: "float \<Rightarrow> real" where
  "valof w =
     (let s = unat w div 2 ^ 31;
          e = unat w div 2 ^ 23 mod 256;
          m = unat w mod 2 ^ 23
      in (if s = 1 then - 1 else 1) *
         (if e = 0 then real m / 2 ^ 149 else real (2 ^ 23 + m) * 2 ^ e / 2 ^ 150))"

definition vdb_dot_product :: "float list \<Rightarrow> float list \<Rightarrow> nat \<Rightarrow> fault + real" where
  "vdb_dot_product a b dims =
     (if dims \<le> length a \<and> dims \<le> length b
      then Inr (foldl (\<lambda>sum i. sum + valof (a ! i) * valof (b ! i)) 0 [0..<dims])
      else Inl Out_Of_Bounds_Read)"

definition vdb_magnitude :: "float list \<Rightarrow> nat \<Rightarrow> fault + real" where
  "vdb_magnitude v dims =
     (if dims \<le> length v
      then Inr (sqrt (foldl (\<lambda>sum i. sum + valof (v ! i) * valof (v ! i)) 0 [0..<dims]))
      else Inl Out_Of_Bounds_Read)"

definition vdb_cosine_similarity :: "float list \<Rightarrow> float list \<Rightarrow> nat \<Rightarrow> fault + real" where
  "vdb_cosine_similarity a b dims =
     (case vdb_dot_product a b dims of
        Inl e \<Rightarrow> Inl e
      | Inr dot \<Rightarrow>
          (case vdb_magnitude a dims of
             Inl e \<Rightarrow> Inl e
           | Inr mag_a \<Rightarrow>
               (case vdb_magnitude b dims of
                  Inl e \<Rightarrow> Inl e
                | Inr mag_b \<Rightarrow>
                    if mag_a = 0 \<or> mag_b = 0 then Inr 0
                    else Inr (dot / (mag_a * mag_b)))))"

definition vdb_euclidean_distance :: "float list \<Rightarrow> float list \<Rightarrow> nat \<Rightarrow> fault + real" where
  "vdb_euclidean_distance a b dims =
     (if dims \<le> length a \<and> dims \<le> length b
      then Inr (sqrt (foldl (\<lambda>sum i.
                  let diff = valof (a ! i) - valof (b ! i) in sum + diff * diff) 0 [0..<dims]))
      else Inl Out_Of_Bounds_Read)"

definition vdb_compute_distance ::
  "float list \<Rightarrow> float list \<Rightarrow> nat \<Rightarrow> vdb_metric \<Rightarrow> fault + real" where
  "vdb_compute_distance a b dims metric =
     (if metric = VDB_METRIC_COSINE then
        (case vdb_cosine_similarity a b dims of Inl e \<Rightarrow> Inl e | Inr c \<Rightarrow> Inr (1 - c))
      else if metric = VDB_METRIC_EUCLIDEAN then vdb_euclidean_distance a b dims
      else if metric = VDB_METRIC_DOT_PRODUCT then
        (case vdb_dot_product a b dims of Inl e \<Rightarrow> Inl e | Inr d \<Rightarrow> Inr (- d))
      else Inr 0)"

section \<open>Vector store (vdb.h, lines 139--221 and 303--422)\<close>

text \<open>\<^verbatim>\<open>db->vectors = NULL\<close>: no slot can be read; the model needs some value for the array.\<close>

definition no_vectors :: "nat \<Rightarrow> vdb_vector" where
  "no_vectors = (\<lambda>i. \<lparr>v_data = [], v_id = None, v_metadata = None\<rparr>)"

definition vdb_create :: "heap \<Rightarrow> nat \<Rightarrow> vdb_metric \<Rightarrow> vdb_database option \<times> heap" where
  "vdb_create h dimensions metric =
     (if dimensions = 0 then (None, h)
      else
        let (db_ok, h1) = VDB_MALLOC h in
        if \<not> db_ok then (None, h1)
        else (Some \<lparr>db_vectors = no_vectors, db_count = 0, db_capacity = 0,
                    db_dimensions = dimensions, db_metric = metric\<rparr>, h1))"

definition strlen :: "byte list \<Rightarrow> nat" where
  "strlen s = length (takeWhile (\<lambda>c. c \<noteq> 0) s)"

text \<open>
  The result is the error code, the database the pointer \<open>db\<close> addresses after the call and
  the allocator. \<^verbatim>\<open>memcpy\<close> reads \<^verbatim>\<open>db->dimensions * sizeof(float)\<close> bytes from \<open>data\<close>
  whatever the caller's buffer holds: reading past its end is undefined. Slot \<open>db_count\<close> is
  not live until the final \<^verbatim>\<open>db->count++\<close>; on the two late failure paths the source
  leaves a dangling or \<^verbatim>\<open>NULL\<close> data pointer in it, and the model leaves the slot as it was.
\<close>

definition vdb_add_vector ::
  "heap \<Rightarrow> vdb_database option \<Rightarrow> float list option \<Rightarrow> byte list option \<Rightarrow> nat option
    \<Rightarrow> fault + (vdb_error \<times> vdb_database option \<times> heap)" where
  "vdb_add_vector h db data id_str metadata =
     (case db of
        None \<Rightarrow> Inr (VDB_ERROR_NULL_POINTER, None, h)
      | Some d \<Rightarrow>
     (case data of
        None \<Rightarrow> Inr (VDB_ERROR_NULL_POINTER, Some d, h)
      | Some buf \<Rightarrow>
          let full = (db_count d \<ge> db_capacity d);
              new_capacity = (if db_capacity d = 0 then 16 else db_capacity d * 2);
              (grown, h1) = (if full then VDB_REALLOC (db_capacity d \<noteq> 0) h else (True, h));
              d1 = (if full \<and> grown then d\<lparr>db_capacity := new_capacity\<rparr> else d)
          in
          if \<not> grown then Inr (VDB_ERROR_OUT_OF_MEMORY, Some d, h1)
          else
            let (data_ok, h2) = VDB_MALLOC h1 in
            if \<not> data_ok then Inr (VDB_ERROR_OUT_OF_MEMORY, Some d1, h2)
            else
              let n = (db_dimensions d * 4) mod 2 ^ 64 div 4 in
              if length buf < n then Inl Out_Of_Bounds_Read
              else
                (case id_str of
                   None \<Rightarrow>
                     Inr (VDB_OK,
                          Some (d1\<lparr>db_vectors := (db_vectors d1)(db_count d1 :=
                                      \<lparr>v_data = take n buf, v_id = None, v_metadata = metadata\<rparr>),
                                    db_count := db_count d1 + 1\<rparr>),
                          h2)
                 | Some s \<Rightarrow>
                     let id_len = strlen s;
                         (id_ok, h3) = VDB_MALLOC h2
                     in
                     if \<not> id_ok then Inr (VDB_ERROR_OUT_OF_MEMORY, Some d1, VDB_FREE True h3)
                     else
                       Inr (VDB_OK,
                            Some (d1\<lparr>db_vectors := (db_vectors d1)(db_count d1 :=
                                        \<lparr>v_data = take n buf, v_id = Some (take id_len s),
                                         v_metadata = metadata\<rparr>),
                                      db_count := db_count d1 + 1\<rparr>),
                            h3))))"

text \<open>
  The second component is what the out-parameters \<^verbatim>\<open>out_data\<close>, \<^verbatim>\<open>out_id\<close> and
  \<^verbatim>\<open>out_metadata\<close> (each written when not \<^verbatim>\<open>NULL\<close>) receive: the three fields of the slot.
\<close>

definition vdb_get_vector :: "vdb_database option \<Rightarrow> nat \<Rightarrow> vdb_error \<times> vdb_vector option" where
  "vdb_get_vector db index =
     (case db of
        None \<Rightarrow> (VDB_ERROR_NULL_POINTER, None)
      | Some d \<Rightarrow>
          if index \<ge> db_count d then (VDB_ERROR_INVALID_INDEX, None)
          else (VDB_OK, Some (db_vectors d index)))"

definition vdb_remove_vector ::
  "heap \<Rightarrow> vdb_database option \<Rightarrow> nat \<Rightarrow> vdb_error \<times> vdb_database option \<times> heap" where
  "vdb_remove_vector h db index =
     (case db of
        None \<Rightarrow> (VDB_ERROR_NULL_POINTER, None, h)
      | Some d \<Rightarrow>
          if index \<ge> db_count d then (VDB_ERROR_INVALID_INDEX, Some d, h)
          else
            let h1 = VDB_FREE True h;
                h2 = VDB_FREE (v_id (db_vectors d index) \<noteq> None) h1;
                moved = (if index < db_count d - 1
                         then (\<lambda>j. if index \<le> j \<and> j < db_count d - 1
                                    then db_vectors d (j + 1) else db_vectors d j)
                         else db_vectors d)
            in (VDB_OK, Some (d\<lparr>db_vectors := moved, db_count := db_count d - 1\<rparr>), h2))"

definition vdb_free_result_set :: "heap \<Rightarrow> vdb_result_set option \<Rightarrow> heap" where
  "vdb_free_result_set h result_set =
     (case result_set of None \<Rightarrow> h | Some rs \<Rightarrow> VDB_FREE True (VDB_FREE True h))"

definition vdb_destroy :: "heap \<Rightarrow> vdb_database option \<Rightarrow> heap" where
  "vdb_destroy h db =
     (case db of
        None \<Rightarrow> h
      | Some d \<Rightarrow>
          let h1 = foldl (\<lambda>h i. VDB_FREE (v_id (db_vectors d i) \<noteq> None) (VDB_FREE True h))
                     h [0..<db_count d];
              h2 = VDB_FREE (db_capacity d \<noteq> 0) h1
          in VDB_FREE True h2)"

definition vdb_count :: "vdb_database option \<Rightarrow> nat" where
  "vdb_count db = (case db of None \<Rightarrow> 0 | Some d \<Rightarrow> db_count d)"


section \<open>Search engine (vdb.h, lines 223--301)\<close>

definition vdb_result_compare :: "vdb_result \<Rightarrow> vdb_result \<Rightarrow> int" where
  "vdb_result_compare ra rb =
     (if r_distance ra < r_distance rb then - 1
      else if r_distance ra > r_distance rb then 1
      else 0)"

text \<open>
  \<^verbatim>\<open>qsort\<close> belongs to the C library, not to this repository: it is a parameter of the
  search. What the C standard promises of it is \<open>qsort_contract\<close>: the array is a
  rearrangement of the input in ascending order of the comparison function; the order of
  elements that compare equal is unspecified.
\<close>

type_synonym qsort_fn = "(vdb_result \<Rightarrow> vdb_result \<Rightarrow> int) \<Rightarrow> vdb_result list \<Rightarrow> vdb_result list"

definition qsort_contract :: "qsort_fn \<Rightarrow> bool" where
  "qsort_contract qsort \<longleftrightarrow>
     (\<forall>xs. mset (qsort vdb_result_compare xs) = mset xs \<and>
           sorted_wrt (\<lambda>a b. vdb_result_compare a b \<le> 0) (qsort vdb_result_compare xs))"

text \<open>The scoring loop: \<open>all_results d query n\<close> is the array after \<open>n\<close> iterations.\<close>

fun all_results :: "vdb_database \<Rightarrow> float list \<Rightarrow> nat \<Rightarrow> fault + vdb_result list" where
  "all_results d query 0 = Inr []"
| "all_results d query (Suc i) =
     (case all_results d query i of
        Inl e \<Rightarrow> Inl e
      | Inr rs \<Rightarrow>
          (case vdb_compute_distance query (v_data (db_vectors d i)) (db_dimensions d) (db_metric d) of
             Inl e \<Rightarrow> Inl e
           | Inr distance \<Rightarrow>
               Inr (rs @ [\<lparr>r_index = i, r_distance = distance, r_id = v_id (db_vectors d i),
                           r_metadata = v_metadata (db_vectors d i)\<rparr>])))"

definition vdb_search ::
  "qsort_fn \<Rightarrow> heap \<Rightarrow> vdb_database option \<Rightarrow> float list option \<Rightarrow> nat
    \<Rightarrow> fault + (vdb_result_set option \<times> heap)" where
  "vdb_search qsort h db query k =
     (case db of
        None \<Rightarrow> Inr (None, h)
      | Some d \<Rightarrow>
     (case query of
        None \<Rightarrow> Inr (None, h)
      | Some q \<Rightarrow>
          if k = 0 then Inr (None, h)
          else if db_count d = 0 then Inr (None, h)
          else
            let k = (if k > db_count d then db_count d else k);
                (all_ok, h1) = VDB_MALLOC h
            in
            if \<not> all_ok then Inr (None, h1)
            else
              (case all_results d q (db_count d) of
                 Inl e \<Rightarrow> Inl e
               | Inr scored \<Rightarrow>
                   let sorted_results = qsort vdb_result_compare scored;
                       (set_ok, h2) = VDB_MALLOC h1
                   in
                   if \<not> set_ok then Inr (None, VDB_FREE True h2)
                   else
                     let (results_ok, h3) = VDB_MALLOC h2 in
                     if \<not> results_ok then Inr (None, VDB_FREE True (VDB_FREE True h3))
                     else
                       Inr (Some \<lparr>rs_results = take k sorted_results, rs_count = k\<rparr>,
                            VDB_FREE True h3))))"

section \<open>Persistence codec (vdb.h, lines 424--540)\<close>

subsection \<open>Files and streams\<close>

text \<open>
  \<open>contents\<close> maps the names \<^verbatim>\<open>fopen(name, "rb")\<close> can open to the bytes of the file,
  \<open>writable\<close> holds of the names \<^verbatim>\<open>fopen(name, "wb")\<close> can open. The source ignores the
  results of \<^verbatim>\<open>fwrite\<close> and \<^verbatim>\<open>fclose\<close>; in the model every write to an open stream
  succeeds.
\<close>

record filesystem =
  contents :: "string \<Rightarrow> byte list option"
  writable :: "string \<Rightarrow> bool"

text \<open>An unsigned integer of \<open>n\<close> bytes in memory, least significant byte first.\<close>

fun le_bytes :: "nat \<Rightarrow> nat \<Rightarrow> byte list" where
  "le_bytes 0 v = []"
| "le_bytes (Suc n) v = word_of_nat (v mod 256) # le_bytes n (v div 256)"

fun le_value :: "byte list \<Rightarrow> nat" where
  "le_value [] = 0"
| "le_value (b # bs) = unat b + 256 * le_value bs"

text \<open>An array of \<^verbatim>\<open>float\<close> read from raw bytes, four bytes each.\<close>

fun floats_of :: "byte list \<Rightarrow> float list" where
  "floats_of (a # b # c # d # rest) = word_of_nat (le_value [a, b, c, d]) # floats_of rest"
| "floats_of rest = []"

text \<open>
  \<open>fread sz n f\<close> on the unread bytes \<open>f\<close> of a stream: the bytes stored into the buffer,
  the number of complete items (the return value) and the bytes left unread.
\<close>

definition fread :: "nat \<Rightarrow> nat \<Rightarrow> byte list \<Rightarrow> byte list \<times> nat \<times> byte list" where
  "fread sz n f = (let buf = take (sz * n) f in (buf, length buf div sz, drop (sz * n) f))"

subsection \<open>\<^verbatim>\<open>vdb_save\<close>\<close>

text \<open>The record loop: \<open>save_loop d n\<close> is what \<open>n\<close> iterations write to the stream.\<close>

fun save_loop :: "vdb_database \<Rightarrow> nat \<Rightarrow> fault + byte list" where
  "save_loop d 0 = Inr []"
| "save_loop d (Suc i) =
     (case save_loop d i of
        Inl e \<Rightarrow> Inl e
      | Inr written \<Rightarrow>
          let v = db_vectors d i in
          if length (v_data v) < db_dimensions d then Inl Out_Of_Bounds_Read
          else
            let id_len = (case v_id v of None \<Rightarrow> 0 | Some s \<Rightarrow> strlen s mod 2 ^ 32) in
            Inr (written
                 @ concat (map (\<lambda>x. le_bytes 4 (unat x)) (take (db_dimensions d) (v_data v)))
                 @ le_bytes 4 id_len
                 @ (case v_id v of
                      None \<Rightarrow> []
                    | Some s \<Rightarrow> if id_len > 0 then take id_len s else [])))"

definition vdb_save ::
  "filesystem \<Rightarrow> vdb_database option \<Rightarrow> string option \<Rightarrow> fault + (vdb_error \<times> filesystem)" where
  "vdb_save fs db filename =
     (case db of
        None \<Rightarrow> Inr (VDB_ERROR_NULL_POINTER, fs)
      | Some d \<Rightarrow>
     (case filename of
        None \<Rightarrow> Inr (VDB_ERROR_NULL_POINTER, fs)
      | Some name \<Rightarrow>
          if \<not> writable fs name then Inr (VDB_ERROR_OUT_OF_MEMORY, fs)
          else
            (case save_loop d (db_count d) of
               Inl e \<Rightarrow> Inl e
             | Inr records \<Rightarrow>
                 Inr (VDB_OK,
                      fs\<lparr>contents := (contents fs)(name \<mapsto>
                           le_bytes 4 0x56444230
                           @ le_bytes 8 (db_dimensions d)
                           @ le_bytes 8 (db_count d)
                           @ le_bytes 4 (unat (db_metric d))
                           @ records)\<rparr>))))"

subsection \<open>\<^verbatim>\<open>vdb_load\<close>\<close>

text \<open>
  The record loop with \<open>remaining\<close> iterations to go. \<^verbatim>\<open>fread\<close> stores what it reads
  before the source compares its return value, so a buffer smaller than the bytes read is
  overrun first: \<^verbatim>\<open>data\<close> has \<^verbatim>\<open>dimensions * sizeof(float)\<close> bytes in \<^verbatim>\<open>size_t\<close>
  arithmetic, \<^verbatim>\<open>id\<close> has \<^verbatim>\<open>id_len + 1\<close> bytes in \<^verbatim>\<open>uint32_t\<close> arithmetic.
\<close>

fun load_loop ::
  "nat \<Rightarrow> nat \<Rightarrow> heap \<Rightarrow> byte list \<Rightarrow> vdb_database \<Rightarrow> fault + (vdb_database option \<times> heap)" where
  "load_loop dimensions 0 h f db = Inr (Some db, h)"
| "load_loop dimensions (Suc remaining) h f db =
     (let (data_ok, h1) = VDB_MALLOC h in
      if \<not> data_ok then Inr (None, vdb_destroy (VDB_FREE False h1) (Some db))
      else
        let (data, n_data, f1) = fread 4 dimensions f in
        if length data > (dimensions * 4) mod 2 ^ 64 then Inl Heap_Buffer_Overflow
        else if n_data \<noteq> dimensions then Inr (None, vdb_destroy (VDB_FREE True h1) (Some db))
        else
          let (len_bytes, n_len, f2) = fread 4 1 f1 in
          if n_len \<noteq> 1 then Inr (None, vdb_destroy (VDB_FREE True h1) (Some db))
          else
            let id_len = le_value len_bytes in
            if id_len > 0 then
              (let (id_ok, h2) = VDB_MALLOC h1 in
               if \<not> id_ok
               then Inr (None, vdb_destroy (VDB_FREE False (VDB_FREE True h2)) (Some db))
               else
                 let (id_buf, n_id, f3) = fread 1 id_len f2 in
                 if length id_buf > (id_len + 1) mod 2 ^ 32 then Inl Heap_Buffer_Overflow
                 else if n_id \<noteq> id_len
                 then Inr (None, vdb_destroy (VDB_FREE True (VDB_FREE True h2)) (Some db))
                 else
                   (case vdb_add_vector h2 (Some db) (Some (floats_of data)) (Some id_buf) None of
                      Inl e \<Rightarrow> Inl e
                    | Inr (err, db', h3) \<Rightarrow>
                        let h4 = VDB_FREE True (VDB_FREE True h3) in
                        if err \<noteq> VDB_OK then Inr (None, vdb_destroy h4 db')
                        else
                          (case db' of
                             None \<Rightarrow> Inr (None, h4)
                           | Some d' \<Rightarrow> load_loop dimensions remaining h4 f3 d')))
            else
              (case vdb_add_vector h1 (Some db) (Some (floats_of data)) None None of
                 Inl e \<Rightarrow> Inl e
               | Inr (err, db', h3) \<Rightarrow>
                   let h4 = VDB_FREE False (VDB_FREE True h3) in
                   if err \<noteq> VDB_OK then Inr (None, vdb_destroy h4 db')
                   else
                     (case db' of
                        None \<Rightarrow> Inr (None, h4)
                      | Some d' \<Rightarrow> load_loop dimensions remaining h4 f2 d')))"

definition vdb_load ::
  "heap \<Rightarrow> filesystem \<Rightarrow> string option \<Rightarrow> fault + (vdb_database option \<times> heap)" where
  "vdb_load h fs filename =
     (case filename of
        None \<Rightarrow> Inr (None, h)
      | Some name \<Rightarrow>
     (case contents fs name of
        None \<Rightarrow> Inr (None, h)
      | Some f \<Rightarrow>
          let (magic, n_magic, f1) = fread 4 1 f in
          if n_magic \<noteq> 1 \<or> le_value magic \<noteq> 0x56444230 then Inr (None, h)
          else
            let (dimensions, n_dimensions, f2) = fread 8 1 f1 in
            if n_dimensions \<noteq> 1 then Inr (None, h)
            else
              let (count, n_count, f3) = fread 8 1 f2 in
              if n_count \<noteq> 1 then Inr (None, h)
              else
                let (metric, n_metric, f4) = fread 4 1 f3 in
                if n_metric \<noteq> 1 then Inr (None, h)
                else
                  (case vdb_create h (le_value dimensions) (word_of_nat (le_value metric)) of
                     (None, h1) \<Rightarrow> Inr (None, h1)
                   | (Some db, h1) \<Rightarrow>
                       load_loop (le_value dimensions) (le_value count) h1 f4 db)))"

section \<open>Reachable states, well-formed databases and a reference sort\<close>

text \<open>The states a caller can reach through the mutating operations of the interface.\<close>

inductive reachable :: "vdb_database \<Rightarrow> bool" where
  created: "vdb_create h dimensions metric = (Some d, h') \<Longrightarrow> reachable d"
| added: "reachable d \<Longrightarrow>
    vdb_add_vector h (Some d) data id_str metadata = Inr (err, Some d', h') \<Longrightarrow> reachable d'"
| removed: "reachable d \<Longrightarrow>
    vdb_remove_vector h (Some d) index = (err, Some d', h') \<Longrightarrow> reachable d'"

text \<open>
  The data invariant of the store: every live record holds exactly \<open>db_dimensions\<close> floats
  and its identifier, when present, is a C string (no NUL byte inside).
\<close>

definition well_formed :: "vdb_database \<Rightarrow> bool" where
  "well_formed d \<longleftrightarrow>
     list_all (\<lambda>i. length (v_data (db_vectors d i)) = db_dimensions d \<and>
                   (case v_id (db_vectors d i) of None \<Rightarrow> True | Some s \<Rightarrow> 0 \<notin> set s))
       [0..<db_count d]"

text \<open>An insertion sort driven by the comparison function: one function that meets \<open>qsort_contract\<close>.\<close>

fun insert_by :: "('a \<Rightarrow> 'a \<Rightarrow> int) \<Rightarrow> 'a \<Rightarrow> 'a list \<Rightarrow> 'a list" where
  "insert_by cmp x [] = [x]"
| "insert_by cmp x (y # ys) = (if cmp x y \<le> 0 then x # y # ys else y # insert_by cmp x ys)"

definition insertion_sort :: "('a \<Rightarrow> 'a \<Rightarrow> int) \<Rightarrow> 'a list \<Rightarrow> 'a list" where
  "insertion_sort cmp xs = foldr (insert_by cmp) xs []"

text \<open>The value of the local \<^verbatim>\<open>new_capacity\<close> of \<^verbatim>\<open>vdb_add_vector\<close>.\<close>

definition new_capacity :: "vdb_database \<Rightarrow> nat" where
  "new_capacity d = (if db_capacity d = 0 then 16 else db_capacity d * 2)"

section \<open>Example data\<close>

text \<open>An allocator that never fails, the floats 0.0, 1.0 and 2.0, and a store of three records.\<close>

definition heap0 :: heap where
  "heap0 = \<lparr>outcomes = [], live = 0\<rparr>"

definition f0 :: float where
  "f0 = 0"

definition f1 :: float where
  "f1 = 0x3F800000"

definition f2 :: float where
  "f2 = 0x40000000"

definition db_new :: vdb_database where
  "db_new = \<lparr>db_vectors = no_vectors, db_count = 0, db_capacity = 0, db_dimensions = 2,
             db_metric = VDB_METRIC_DOT_PRODUCT\<rparr>"

definition rec_a :: vdb_vector where
  "rec_a = \<lparr>v_data = [f1, f0], v_id = Some [0x61], v_metadata = Some 7\<rparr>"

definition rec_b :: vdb_vector where
  "rec_b = \<lparr>v_data = [f0, f1], v_id = Some [0x62], v_metadata = None\<rparr>"

definition rec_c :: vdb_vector where
  "rec_c = \<lparr>v_data = [f2, f0], v_id = None, v_metadata = None\<rparr>"

definition db_abc :: vdb_database where
  "db_abc = \<lparr>db_vectors = no_vectors(0 := rec_a, 1 := rec_b, 2 := rec_c), db_count = 3,
             db_capacity = 16, db_dimensions = 2, db_metric = VDB_METRIC_DOT_PRODUCT\<rparr>"

text \<open>
  The reads of the scoring loop stay inside the buffers: the query and every live record
  hold at least \<open>db_dimensions\<close> floats.
\<close>

definition in_bounds :: "vdb_database \<Rightarrow> float list \<Rightarrow> bool" where
  "in_bounds d q \<longleftrightarrow>
     db_dimensions d \<le> length q \<and>
     list_all (\<lambda>i. db_dimensions d \<le> length (v_data (db_vectors d i))) [0..<db_count d]"

text \<open>The distance the scoring loop stores for slot \<open>i\<close>.\<close>

definition score :: "vdb_database \<Rightarrow> float list \<Rightarrow> nat \<Rightarrow> vdb_result" where
  "score d q i =
     \<lparr>r_index = i,
      r_distance = (case vdb_compute_distance q (v_data (db_vectors d i)) (db_dimensions d) (db_metric d)
                    of Inl e \<Rightarrow> 0 | Inr x \<Rightarrow> x),
      r_id = v_id (db_vectors d i), r_metadata = v_metadata (db_vectors d i)\<rparr>"

text \<open>What one iteration of the loop of \<^verbatim>\<open>vdb_save\<close> writes for an in-bounds record.\<close>

definition record_bytes :: "nat \<Rightarrow> vdb_vector \<Rightarrow> byte list" where
  "record_bytes dims v =
     concat (map (\<lambda>x. le_bytes 4 (unat x)) (take dims (v_data v)))
     @ le_bytes 4 (case v_id v of None \<Rightarrow> 0 | Some s \<Rightarrow> strlen s mod 2 ^ 32)
     @ (case v_id v of
          None \<Rightarrow> []
        | Some s \<Rightarrow> if strlen s mod 2 ^ 32 > 0 then take (strlen s mod 2 ^ 32) s else [])"

text \<open>
  The databases the file format can carry: well formed, with \<open>dimensions\<close> and \<open>count\<close> that
  fit their fields and the allocation size, and identifiers shorter than \<open>2 ^ 32 - 1\<close>
  bytes, so that \<^verbatim>\<open>(uint32_t)strlen(id)\<close> and \<^verbatim>\<open>id_len + 1\<close> do not wrap.
\<close>

definition persistable :: "vdb_database \<Rightarrow> bool" where
  "persistable d \<longleftrightarrow>
     well_formed d \<and> 0 < db_dimensions d \<and> db_dimensions d < 2 ^ 62 \<and> db_count d < 2 ^ 64 \<and>
     list_all (\<lambda>i. case v_id (db_vectors d i) of None \<Rightarrow> True | Some s \<Rightarrow> length s < 2 ^ 32 - 1)
       [0..<db_count d]"

text \<open>The record \<^verbatim>\<open>vdb_load\<close> rebuilds from the bytes of a record.\<close>

definition loaded_vector :: "vdb_vector \<Rightarrow> vdb_vector" where
  "loaded_vector v =
     \<lparr>v_data = v_data v,
      v_id = (if v_id v = Some [] then None else v_id v),
      v_metadata = None\<rparr>"

text \<open>
  An empty file system in which every name can be written, a store whose only record has
  the empty string as identifier, and the 32 bytes \<^verbatim>\<open>vdb_save\<close> writes for that store.
\<close>

definition fs0 :: filesystem where
  "fs0 = \<lparr>contents = (\<lambda>name. None), writable = (\<lambda>name. True)\<rparr>"

definition db_empty_id :: vdb_database where
  "db_empty_id =
     \<lparr>db_vectors = no_vectors(0 := \<lparr>v_data = [f1], v_id = Some [], v_metadata = None\<rparr>),
      db_count = 1, db_capacity = 16, db_dimensions = 1, db_metric = VDB_METRIC_COSINE\<rparr>"

definition file_empty_id :: "byte list" where
  "file_empty_id =
     [0x30, 0x42, 0x44, 0x56,
      1, 0, 0, 0, 0, 0, 0, 0,
      1, 0, 0, 0, 0, 0, 0, 0,
      0, 0, 0, 0,
      0, 0, 0x80, 0x3F,
      0, 0, 0, 0]"

text \<open>The record test of \<open>persistable\<close> for one record.\<close>

definition good_record :: "nat \<Rightarrow> vdb_vector \<Rightarrow> bool" where
  "good_record dims v \<longleftrightarrow>
     length (v_data v) = dims \<and>
     (case v_id v of None \<Rightarrow> True | Some s \<Rightarrow> 0 \<notin> set s \<and> length s < 2 ^ 32 - 1)"

text \<open>
  A file whose only record announces an identifier of \<open>2 ^ 32 - 1\<close> bytes and holds one:
  magic, dimensions 1, count 1, metric 0, the float 1.0, the length, one byte.
\<close>

definition file_long_id :: "byte list" where
  "file_long_id =
     [0x30, 0x42, 0x44, 0x56,
      1, 0, 0, 0, 0, 0, 0, 0,
      1, 0, 0, 0, 0, 0, 0, 0,
      0, 0, 0, 0,
      0, 0, 0x80, 0x3F,
      0xFF, 0xFF, 0xFF, 0xFF,
      0x41]"

text \<open>
  The heap blocks a database owns: the database object, the slot array once it exists, and
  for every live record its vector and, when present, its identifier.
\<close>

definition blocks :: "vdb_database \<Rightarrow> int" where
  "blocks d =
     1 + (if db_capacity d = 0 then 0 else 1) +
     (\<Sum>i<db_count d. 1 + (if v_id (db_vectors d i) \<noteq> None then 1 else 0))"



section \<open>The allocator\<close>

lemma malloc_never_fails:
  "never_fails h \<Longrightarrow> VDB_MALLOC h = (True, h\<lparr>outcomes := tl (outcomes h), live := live h + 1\<rparr>)"
  by (cases "outcomes h") (auto simp: VDB_MALLOC_def never_fails_def)

lemma realloc_never_fails:
  "never_fails h \<Longrightarrow> VDB_REALLOC old h =
     (True, h\<lparr>outcomes := tl (outcomes h), live := (if old then live h else live h + 1)\<rparr>)"
  by (cases "outcomes h") (auto simp: VDB_REALLOC_def never_fails_def)

lemma never_fails_tl [simp]:
  "never_fails h \<Longrightarrow> never_fails (h\<lparr>outcomes := tl (outcomes h), live := l\<rparr>)"
  by (cases "outcomes h") (auto simp: never_fails_def)

lemma never_fails_free [simp]: "never_fails (VDB_FREE p h) = never_fails h"
  by (simp add: VDB_FREE_def never_fails_def)

lemma live_free [simp]: "live (VDB_FREE p h) = (if p then live h - 1 else live h)"
  by (simp add: VDB_FREE_def)

lemma live_malloc: "live (snd (VDB_MALLOC h)) = (if fst (VDB_MALLOC h) then live h + 1 else live h)"
  by (auto simp: VDB_MALLOC_def split: list.splits)

lemma live_realloc:
  "live (snd (VDB_REALLOC old h)) = (if fst (VDB_REALLOC old h) \<and> \<not> old then live h + 1 else live h)"
  by (auto simp: VDB_REALLOC_def split: list.splits)

lemma malloc_succeeds:
  assumes "never_fails h"
  shows "\<exists>h1. VDB_MALLOC h = (True, h1) \<and> never_fails h1 \<and> live h1 = live h + 1"
  using assms malloc_never_fails[OF assms] by (cases "outcomes h") (auto simp: never_fails_def)

lemma realloc_succeeds:
  assumes "never_fails h"
  shows "\<exists>h1. VDB_REALLOC old h = (True, h1) \<and> never_fails h1 \<and>
    live h1 = (if old then live h else live h + 1)"
  using assms realloc_never_fails[OF assms] by (cases "outcomes h") (auto simp: never_fails_def)

section \<open>Metric engine\<close>


lemma metric_distinct [simp]:
  "VDB_METRIC_EUCLIDEAN \<noteq> VDB_METRIC_COSINE" "VDB_METRIC_DOT_PRODUCT \<noteq> VDB_METRIC_COSINE"
  "VDB_METRIC_DOT_PRODUCT \<noteq> VDB_METRIC_EUCLIDEAN"
  by (simp_all add: VDB_METRIC_EUCLIDEAN_def VDB_METRIC_COSINE_def VDB_METRIC_DOT_PRODUCT_def)







lemma upt_0_2: "[0..<2] = [0, 1]"
  by (simp add: upt_conv_Cons)

lemma valof_simps [simp]: "valof f0 = 0" "valof f1 = 1" "valof f2 = 2"
  by (simp_all add: valof_def f0_def f1_def f2_def)




section \<open>Insertion\<close>

lemma add_vector_null:
  "vdb_add_vector h None data id_str md = Inr (VDB_ERROR_NULL_POINTER, None, h)"
  "vdb_add_vector h (Some d) None id_str md = Inr (VDB_ERROR_NULL_POINTER, Some d, h)"
  by (simp_all add: vdb_add_vector_def)

text \<open>Every way \<^verbatim>\<open>vdb_add_vector\<close> can return, given a database and a buffer.\<close>

lemma add_vector_Inr:
  assumes "vdb_add_vector h (Some d) (Some buf) id_str md = Inr (err, db', h')"
  shows "(\<exists>c. err = VDB_ERROR_OUT_OF_MEMORY \<and> db' = Some (d\<lparr>db_capacity := c\<rparr>) \<and>
            (c = db_capacity d \<and> live h' = live h \<and>
               (db_capacity d \<le> db_count d \<longrightarrow> \<not> fst (VDB_REALLOC (db_capacity d \<noteq> 0) h)) \<or>
             db_capacity d \<le> db_count d \<and> fst (VDB_REALLOC (db_capacity d \<noteq> 0) h) \<and>
             c = new_capacity d \<and> live h' = live h + (if db_capacity d = 0 then 1 else 0))) \<or>
         (err = VDB_OK \<and>
          db' = Some (d\<lparr>db_capacity := (if db_capacity d \<le> db_count d then new_capacity d
                                           else db_capacity d),
                      db_vectors := (db_vectors d)(db_count d :=
                         \<lparr>v_data = take ((db_dimensions d * 4) mod 2 ^ 64 div 4) buf,
                          v_id = map_option (\<lambda>s. take (strlen s) s) id_str,
                          v_metadata = md\<rparr>),
                      db_count := db_count d + 1\<rparr>) \<and>
          (db_dimensions d * 4) mod 2 ^ 64 div 4 \<le> length buf \<and>
          (db_capacity d \<le> db_count d \<longrightarrow> fst (VDB_REALLOC (db_capacity d \<noteq> 0) h)) \<and>
          live h' = live h + 1 + (if id_str = None then 0 else 1) +
                     (if db_capacity d = 0 then 1 else 0))"
  using assms
  by (auto simp: vdb_add_vector_def Let_def split_beta live_malloc live_realloc new_capacity_def
           split: option.splits if_splits)

lemma grow_succeeds:
  assumes "never_fails h"
  shows "\<exists>h1. (if db_capacity d \<le> db_count d then VDB_REALLOC (db_capacity d \<noteq> 0) h
               else (True, h)) = (True, h1) \<and> never_fails h1 \<and>
              live h1 = live h + (if db_capacity d = 0 then 1 else 0)"
proof (cases "db_capacity d \<le> db_count d")
  case True
  then show ?thesis using realloc_succeeds[OF assms, of "db_capacity d \<noteq> 0"] by auto
next
  case False
  then show ?thesis using assms by auto
qed

lemma add_vector_ok:
  assumes "never_fails h" and "(db_dimensions d * 4) mod 2 ^ 64 div 4 \<le> length buf"
  shows "\<exists>h'. vdb_add_vector h (Some d) (Some buf) id_str md =
           Inr (VDB_OK,
                Some (d\<lparr>db_capacity := (if db_capacity d \<le> db_count d then new_capacity d
                                           else db_capacity d),
                      db_vectors := (db_vectors d)(db_count d :=
                         \<lparr>v_data = take ((db_dimensions d * 4) mod 2 ^ 64 div 4) buf,
                          v_id = map_option (\<lambda>s. take (strlen s) s) id_str,
                          v_metadata = md\<rparr>),
                      db_count := db_count d + 1\<rparr>), h') \<and> never_fails h' \<and>
           live h' = live h + 1 + (if id_str = None then 0 else 1) +
                     (if db_capacity d = 0 then 1 else 0)"
proof -
  obtain h1 where h1: "(if db_capacity d \<le> db_count d then VDB_REALLOC (db_capacity d \<noteq> 0) h
                        else (True, h)) = (True, h1)" "never_fails h1"
      "live h1 = live h + (if db_capacity d = 0 then 1 else 0)"
    using grow_succeeds[OF assms(1)] by blast
  obtain h2 where h2: "VDB_MALLOC h1 = (True, h2)" "never_fails h2" "live h2 = live h1 + 1"
    using malloc_succeeds[OF h1(2)] by blast
  obtain h3 where h3: "VDB_MALLOC h2 = (True, h3)" "never_fails h3" "live h3 = live h2 + 1"
    using malloc_succeeds[OF h2(2)] by blast
  show ?thesis
    using assms(2) h1 h2 h3
    by (cases id_str) (auto simp: vdb_add_vector_def Let_def new_capacity_def)
qed

lemma add_vector_short:
  assumes "never_fails h" and "length buf < (db_dimensions d * 4) mod 2 ^ 64 div 4"
  shows "vdb_add_vector h (Some d) (Some buf) id_str md = Inl Out_Of_Bounds_Read"
proof -
  obtain h1 where h1: "(if db_capacity d \<le> db_count d then VDB_REALLOC (db_capacity d \<noteq> 0) h
                        else (True, h)) = (True, h1)" "never_fails h1"
    using grow_succeeds[OF assms(1)] by blast
  obtain h2 where h2: "VDB_MALLOC h1 = (True, h2)"
    using malloc_succeeds[OF h1(2)] by blast
  show ?thesis
    using assms(2) h1 h2 by (simp add: vdb_add_vector_def Let_def)
qed

lemma dims_bytes: "n < 2 ^ 62 \<Longrightarrow> (n * 4) mod 2 ^ 64 div 4 = (n::nat)"
  by simp

lemma add_vector_never_invalid_dimensions:
  "vdb_add_vector h db data id_str md \<noteq> Inr (VDB_ERROR_INVALID_DIMENSIONS, db', h')"
proof (cases db)
  case None then show ?thesis by (simp add: add_vector_null)
next
  case (Some d)
  show ?thesis
  proof (cases data)
    case None with Some show ?thesis by (simp add: add_vector_null)
  next
    case (Some buf)
    with \<open>db = Some d\<close> show ?thesis using add_vector_Inr[of h d buf id_str md VDB_ERROR_INVALID_DIMENSIONS db' h']
      by auto
  qed
qed



lemma take_strlen: "take (strlen s) s = takeWhile (\<lambda>c. c \<noteq> 0) s"
  unfolding strlen_def by (rule takeWhile_eq_take[symmetric])


lemma add_first: "vdb_add_vector heap0 (Some db_new) (Some [f1, f0]) (Some [0x61]) (Some 7) =
  Inr (VDB_OK, Some (db_new\<lparr>db_capacity := 16, db_vectors := no_vectors(0 := rec_a), db_count := 1\<rparr>),
       \<lparr>outcomes = [], live = 3\<rparr>)"
  by (simp add: vdb_add_vector_def heap0_def db_new_def rec_a_def VDB_REALLOC_def VDB_MALLOC_def
        Let_def strlen_def)



text \<open>
  Claim C4 says that a vector whose length differs from \<open>dimensions\<close> is rejected with
  \<^verbatim>\<open>VDB_ERROR_INVALID_DIMENSIONS\<close> and the count stays. The source cannot do that:
  \<^verbatim>\<open>vdb_add_vector\<close> receives a bare \<^verbatim>\<open>const float*\<close> and no length. A buffer of three
  floats given to a two-dimensional store is accepted, its first two floats are stored and
  the count becomes 1.
\<close>

theorem insert_accepts_wrong_length:
  "length [f1, f0, f2] \<noteq> db_dimensions db_new \<and>
   vdb_add_vector heap0 (Some db_new) (Some [f1, f0, f2]) None None =
     Inr (VDB_OK,
          Some (db_new\<lparr>db_capacity := 16,
                       db_vectors := no_vectors(0 := \<lparr>v_data = [f1, f0], v_id = None, v_metadata = None\<rparr>),
                       db_count := 1\<rparr>),
          \<lparr>outcomes = [], live = 2\<rparr>)"
  by (simp add: vdb_add_vector_def heap0_def db_new_def VDB_REALLOC_def VDB_MALLOC_def Let_def)

text \<open>
  Claim C4 as amended. \<^verbatim>\<open>vdb_add_vector\<close> never returns \<^verbatim>\<open>VDB_ERROR_INVALID_DIMENSIONS\<close>.
  With allocations that succeed, a buffer of at least \<open>dimensions\<close> floats is accepted: its
  first \<open>dimensions\<close> floats are stored (a longer buffer is cut, not rejected) and the count
  grows by one; a buffer of fewer floats is read past its end, which C leaves undefined.
\<close>

theorem insert_without_length_check:
  "vdb_add_vector h db data id_str md \<noteq> Inr (VDB_ERROR_INVALID_DIMENSIONS, db', h') \<and>
   (never_fails h \<and> db_dimensions d < 2 ^ 62 \<and> db_dimensions d \<le> length v \<longrightarrow>
      (\<exists>d1 h1. vdb_add_vector h (Some d) (Some v) id_str md = Inr (VDB_OK, Some d1, h1) \<and>
         db_count d1 = db_count d + 1 \<and>
         v_data (db_vectors d1 (db_count d)) = take (db_dimensions d) v)) \<and>
   (never_fails h \<and> db_dimensions d < 2 ^ 62 \<and> length v < db_dimensions d \<longrightarrow>
      vdb_add_vector h (Some d) (Some v) id_str md = Inl Out_Of_Bounds_Read)"
proof (intro conjI impI)
  show "vdb_add_vector h db data id_str md \<noteq> Inr (VDB_ERROR_INVALID_DIMENSIONS, db', h')"
    by (rule add_vector_never_invalid_dimensions)
next
  assume a: "never_fails h \<and> db_dimensions d < 2 ^ 62 \<and> db_dimensions d \<le> length v"
  then have n: "(db_dimensions d * 4) mod 2 ^ 64 div 4 = db_dimensions d" by simp
  show "\<exists>d1 h1. vdb_add_vector h (Some d) (Some v) id_str md = Inr (VDB_OK, Some d1, h1) \<and>
         db_count d1 = db_count d + 1 \<and>
         v_data (db_vectors d1 (db_count d)) = take (db_dimensions d) v"
    using add_vector_ok[of h d v id_str md] a unfolding n by auto
next
  assume a: "never_fails h \<and> db_dimensions d < 2 ^ 62 \<and> length v < db_dimensions d"
  then have n: "(db_dimensions d * 4) mod 2 ^ 64 div 4 = db_dimensions d" by simp
  show "vdb_add_vector h (Some d) (Some v) id_str md = Inl Out_Of_Bounds_Read"
    using add_vector_short[of h v d id_str md] a unfolding n by auto
qed

text \<open>A buffer that is too long and one that is too short, at the fresh two-dimensional store.\<close>

theorem insert_without_length_check_witness:
  "never_fails heap0 \<and> db_dimensions db_new < 2 ^ 62 \<and> db_dimensions db_new \<le> length [f1, f0, f2] \<and>
   (\<exists>d1 h1. vdb_add_vector heap0 (Some db_new) (Some [f1, f0, f2]) None None = Inr (VDB_OK, Some d1, h1) \<and>
      db_count d1 = 1 \<and> v_data (db_vectors d1 0) = [f1, f0]) \<and>
   length [f1] < db_dimensions db_new \<and>
   vdb_add_vector heap0 (Some db_new) (Some [f1]) None None = Inl Out_Of_Bounds_Read"
proof -
  have h: "never_fails heap0" by (simp add: never_fails_def heap0_def)
  have d: "db_dimensions db_new = 2" "db_count db_new = 0" by (simp_all add: db_new_def)
  show ?thesis
    using insert_without_length_check[where h = heap0 and d = db_new and v = "[f1, f0, f2]"
        and id_str = None and md = None]
      insert_without_length_check[where h = heap0 and d = db_new and v = "[f1]"
        and id_str = None and md = None] h d
    by simp
qed

section \<open>Capacity\<close>



section \<open>Creation\<close>

text \<open>
  Claim C10. For every metric, \<^verbatim>\<open>vdb_create(0, metric)\<close> returns \<^verbatim>\<open>NULL\<close> and allocates
  nothing; for every \<open>dimensions > 0\<close> it returns an empty database with count 0, capacity 0
  and the given dimensions and metric. The one other way out of the function is the failed
  allocation of the database object, which also returns \<^verbatim>\<open>NULL\<close>.
\<close>

theorem create_result:
  "vdb_create h 0 metric = (None, h) \<and>
   (0 < dimensions \<and> fst (VDB_MALLOC h) \<longrightarrow>
      vdb_create h dimensions metric =
        (Some \<lparr>db_vectors = no_vectors, db_count = 0, db_capacity = 0,
               db_dimensions = dimensions, db_metric = metric\<rparr>, snd (VDB_MALLOC h))) \<and>
   (0 < dimensions \<and> \<not> fst (VDB_MALLOC h) \<longrightarrow>
      vdb_create h dimensions metric = (None, snd (VDB_MALLOC h)))"
  by (simp add: vdb_create_def split_beta)

text \<open>The three cases at an allocator that never fails and at one whose next request fails.\<close>

theorem create_result_witness:
  "vdb_create heap0 0 VDB_METRIC_COSINE = (None, heap0) \<and>
   vdb_create heap0 2 VDB_METRIC_DOT_PRODUCT = (Some db_new, \<lparr>outcomes = [], live = 1\<rparr>) \<and>
   vdb_create \<lparr>outcomes = [False], live = 0\<rparr> 2 VDB_METRIC_DOT_PRODUCT
     = (None, \<lparr>outcomes = [], live = 0\<rparr>)"
  using create_result[of heap0 VDB_METRIC_COSINE 2]
        create_result[of heap0 VDB_METRIC_DOT_PRODUCT 2]
        create_result[of "\<lparr>outcomes = [False], live = 0\<rparr>" VDB_METRIC_DOT_PRODUCT 2]
  by (simp add: heap0_def db_new_def VDB_MALLOC_def)

section \<open>Removal\<close>

text \<open>
  Claim C5. For every database and every index below its count, \<^verbatim>\<open>vdb_remove_vector\<close>
  succeeds, decreases the count by one, leaves the records before the index in place and
  moves every record after the index down by one slot, so that \<^verbatim>\<open>vdb_get_vector\<close> at a
  slot from the index on returns what stood one slot higher; for every index that is not
  below the count it fails with \<^verbatim>\<open>VDB_ERROR_INVALID_INDEX\<close> and changes neither the
  database nor the allocator.
\<close>

theorem remove_renumbers:
  "(index < db_count d \<longrightarrow>
      (\<exists>d' h'. vdb_remove_vector h (Some d) index = (VDB_OK, Some d', h') \<and>
         db_count d' = db_count d - 1 \<and>
         (\<forall>j. j < index \<longrightarrow> db_vectors d' j = db_vectors d j) \<and>
         (\<forall>j. index \<le> j \<and> j < db_count d - 1 \<longrightarrow>
            db_vectors d' j = db_vectors d (j + 1) \<and>
            vdb_get_vector (Some d') j = (VDB_OK, Some (db_vectors d (j + 1)))))) \<and>
   (db_count d \<le> index \<longrightarrow>
      vdb_remove_vector h (Some d) index = (VDB_ERROR_INVALID_INDEX, Some d, h))"
  by (auto simp: vdb_remove_vector_def vdb_get_vector_def Let_def)

text \<open>Removing record 0 of the three-record store, and an index out of range.\<close>

theorem remove_renumbers_witness:
  "(0::nat) < db_count db_abc \<and>
   (\<exists>d' h'. vdb_remove_vector heap0 (Some db_abc) 0 = (VDB_OK, Some d', h') \<and>
      db_count d' = 2 \<and>
      vdb_get_vector (Some d') 0 = (VDB_OK, Some rec_b) \<and>
      vdb_get_vector (Some d') 1 = (VDB_OK, Some rec_c)) \<and>
   vdb_remove_vector heap0 (Some db_abc) 3 = (VDB_ERROR_INVALID_INDEX, Some db_abc, heap0)"
proof -
  have c: "db_count db_abc = 3" "db_vectors db_abc 1 = rec_b" "db_vectors db_abc 2 = rec_c"
    by (simp_all add: db_abc_def)
  from remove_renumbers[of 0 db_abc heap0] c
  obtain d' h' where r: "vdb_remove_vector heap0 (Some db_abc) 0 = (VDB_OK, Some d', h')"
      "db_count d' = 2"
      "\<forall>j. 0 \<le> j \<and> j < 2 \<longrightarrow> vdb_get_vector (Some d') j = (VDB_OK, Some (db_vectors db_abc (j + 1)))"
    by auto
  have "vdb_get_vector (Some d') 0 = (VDB_OK, Some rec_b)"
       "vdb_get_vector (Some d') 1 = (VDB_OK, Some rec_c)"
    using r(3) c by (auto simp: numeral_2_eq_2)
  moreover have "vdb_remove_vector heap0 (Some db_abc) 3 = (VDB_ERROR_INVALID_INDEX, Some db_abc, heap0)"
    using remove_renumbers[of 3 db_abc heap0] c by simp
  ultimately show ?thesis using r(1,2) c by auto
qed



section \<open>Search\<close>

lemma compute_distance_defined:
  assumes "dims \<le> length a" "dims \<le> length b"
  shows "\<exists>x. vdb_compute_distance a b dims m = Inr x"
  using assms
  by (simp add: vdb_compute_distance_def vdb_cosine_similarity_def vdb_dot_product_def
      vdb_magnitude_def vdb_euclidean_distance_def)

lemma in_bounds_distance:
  assumes "in_bounds d q" "i < db_count d"
  shows "vdb_compute_distance q (v_data (db_vectors d i)) (db_dimensions d) (db_metric d)
           = Inr (r_distance (score d q i))"
proof -
  have "db_dimensions d \<le> length q" "db_dimensions d \<le> length (v_data (db_vectors d i))"
    using assms by (auto simp: in_bounds_def list_all_iff)
  from compute_distance_defined[OF this, of "db_metric d"] show ?thesis
    by (auto simp: score_def)
qed

lemma all_results_in_bounds:
  assumes "in_bounds d q" "n \<le> db_count d"
  shows "all_results d q n = Inr (map (score d q) [0..<n])"
  using assms(2)
proof (induction n)
  case 0 show ?case by simp
next
  case (Suc n)
  then have n: "n < db_count d" by simp
  define x where "x = r_distance (score d q n)"
  have x: "vdb_compute_distance q (v_data (db_vectors d n)) (db_dimensions d) (db_metric d) = Inr x"
    unfolding x_def by (rule in_bounds_distance[OF assms(1) n])
  have "score d q n = \<lparr>r_index = n, r_distance = x, r_id = v_id (db_vectors d n),
                         r_metadata = v_metadata (db_vectors d n)\<rparr>"
    by (simp add: score_def x)
  with Suc x show ?case by simp
qed

lemma search_result:
  assumes "never_fails h" "in_bounds d q" "0 < k" "0 < db_count d"
  shows "\<exists>h'. vdb_search qsort h (Some d) (Some q) k =
           Inr (Some \<lparr>rs_results = take (min k (db_count d))
                                     (qsort vdb_result_compare (map (score d q) [0..<db_count d])),
                      rs_count = min k (db_count d)\<rparr>, h') \<and>
         never_fails h' \<and> live h' = live h + 2"
proof -
  obtain h1 where h1: "VDB_MALLOC h = (True, h1)" "never_fails h1" "live h1 = live h + 1"
    using malloc_succeeds[OF assms(1)] by blast
  obtain h2 where h2: "VDB_MALLOC h1 = (True, h2)" "never_fails h2" "live h2 = live h1 + 1"
    using malloc_succeeds[OF h1(2)] by blast
  obtain h3 where h3: "VDB_MALLOC h2 = (True, h3)" "never_fails h3" "live h3 = live h2 + 1"
    using malloc_succeeds[OF h2(2)] by blast
  have m: "(if db_count d < k then db_count d else k) = min k (db_count d)" by simp
  show ?thesis
    using assms(3,4) h1 h2 h3 all_results_in_bounds[OF assms(2) le_refl]
    by (simp add: vdb_search_def Let_def m del: min_less_iff_conj)
qed

lemma compare_le: "vdb_result_compare a b \<le> 0 \<longleftrightarrow> r_distance a \<le> r_distance b"
  by (simp add: vdb_result_compare_def)

lemma qsort_sorted:
  assumes "qsort_contract qsort"
  shows "sorted (map r_distance (qsort vdb_result_compare xs))"
    and "mset (qsort vdb_result_compare xs) = mset xs"
  using assms by (simp_all add: qsort_contract_def compare_le sorted_map)


lemma mset_insert_by: "mset (insert_by cmp x xs) = add_mset x (mset xs)"
  by (induction xs) simp_all

lemma sorted_insert_by:
  "sorted (map r_distance xs) \<Longrightarrow> sorted (map r_distance (insert_by vdb_result_compare x xs))"
proof (induction xs)
  case Nil then show ?case by simp
next
  case (Cons y ys)
  have "set (insert_by vdb_result_compare x ys) = insert x (set ys)"
    by (metis mset_insert_by set_mset_add_mset_insert set_mset_mset)
  with Cons show ?case by (auto simp: compare_le)
qed

lemma insertion_sort_contract: "qsort_contract insertion_sort"
proof -
  have "mset (insertion_sort vdb_result_compare xs) = mset xs" for xs
    unfolding insertion_sort_def by (induction xs) (simp_all add: mset_insert_by)
  moreover have "sorted (map r_distance (insertion_sort vdb_result_compare xs))" for xs
    unfolding insertion_sort_def by (induction xs) (simp_all add: sorted_insert_by)
  ultimately show ?thesis
    by (simp add: qsort_contract_def compare_le sorted_map)
qed

lemma upt_0_3: "[0..<3] = [0, 1, 2]"
  by (simp add: upt_conv_Cons)

lemma never_fails_heap0: "never_fails heap0"
  by (simp add: never_fails_def heap0_def)

lemma in_bounds_abc: "in_bounds db_abc [f1, f0]"
  by (simp add: in_bounds_def db_abc_def upt_0_3 rec_a_def rec_b_def rec_c_def)

lemma score_abc:
  "map (score db_abc [f1, f0]) [0..<3] =
     [\<lparr>r_index = 0, r_distance = - 1, r_id = Some [0x61], r_metadata = Some 7\<rparr>,
      \<lparr>r_index = 1, r_distance = 0, r_id = Some [0x62], r_metadata = None\<rparr>,
      \<lparr>r_index = 2, r_distance = - 2, r_id = None, r_metadata = None\<rparr>]"
  by (simp add: score_def db_abc_def upt_0_3 upt_0_2 rec_a_def rec_b_def rec_c_def
      vdb_compute_distance_def vdb_dot_product_def VDB_METRIC_DOT_PRODUCT_def
      VDB_METRIC_COSINE_def VDB_METRIC_EUCLIDEAN_def)

lemma search_abc:
  "vdb_search insertion_sort heap0 (Some db_abc) (Some [f1, f0]) 2 =
     Inr (Some \<lparr>rs_results =
                  [\<lparr>r_index = 2, r_distance = - 2, r_id = None, r_metadata = None\<rparr>,
                   \<lparr>r_index = 0, r_distance = - 1, r_id = Some [0x61], r_metadata = Some 7\<rparr>],
                rs_count = 2\<rparr>,
          \<lparr>outcomes = [], live = 2\<rparr>)"
proof -
  have c: "db_count db_abc = 3" by (simp add: db_abc_def)
  have a: "all_results db_abc [f1, f0] 3 = Inr (map (score db_abc [f1, f0]) [0..<3])"
    using all_results_in_bounds[OF in_bounds_abc, of 3] c by simp
  show ?thesis
    by (simp add: vdb_search_def c a score_abc Let_def heap0_def VDB_MALLOC_def VDB_FREE_def
        insertion_sort_def vdb_result_compare_def)
qed




text \<open>
  Claim C6. \<^verbatim>\<open>vdb_search\<close> returns \<^verbatim>\<open>NULL\<close> for \<open>k = 0\<close> and for an empty database, without
  allocating; on a database that is not empty, a \<open>k\<close> above the count is cut to the count
  and exactly \<open>count\<close> results are returned (when the allocations succeed).
\<close>

theorem search_degenerate:
  "vdb_search qsort h db query 0 = Inr (None, h) \<and>
   (db_count d = 0 \<longrightarrow> vdb_search qsort h (Some d) query k = Inr (None, h)) \<and>
   (qsort_contract qsort \<and> never_fails h \<and> in_bounds d q \<and> 0 < db_count d \<and> db_count d < k \<longrightarrow>
      (\<exists>rs h'. vdb_search qsort h (Some d) (Some q) k = Inr (Some rs, h') \<and>
         rs_count rs = db_count d \<and> length (rs_results rs) = db_count d))"
proof (intro conjI impI)
  show "vdb_search qsort h db query 0 = Inr (None, h)"
    by (simp add: vdb_search_def split: option.splits)
next
  assume "db_count d = 0"
  then show "vdb_search qsort h (Some d) query k = Inr (None, h)"
    by (simp add: vdb_search_def split: option.splits)
next
  assume a: "qsort_contract qsort \<and> never_fails h \<and> in_bounds d q \<and> 0 < db_count d \<and> db_count d < k"
  then have k: "0 < k" "min k (db_count d) = db_count d" by auto
  have "length (qsort vdb_result_compare (map (score d q) [0..<db_count d])) = db_count d"
    using qsort_sorted(2)[of qsort "map (score d q) [0..<db_count d]"] a
    by (metis length_map length_upt minus_nat.diff_0 size_mset)
  with search_result[of h d q k qsort] a k
  show "\<exists>rs h'. vdb_search qsort h (Some d) (Some q) k = Inr (Some rs, h') \<and>
         rs_count rs = db_count d \<and> length (rs_results rs) = db_count d"
    by auto
qed

text \<open>\<open>k = 0\<close>, the empty store, and \<open>k = 5\<close> on the store of three records.\<close>

theorem search_degenerate_witness:
  "db_count db_new = 0 \<and>
   vdb_search insertion_sort heap0 (Some db_abc) (Some [f1, f0]) 0 = Inr (None, heap0) \<and>
   vdb_search insertion_sort heap0 (Some db_new) (Some [f1, f0]) 2 = Inr (None, heap0) \<and>
   qsort_contract insertion_sort \<and> never_fails heap0 \<and> in_bounds db_abc [f1, f0] \<and>
   0 < db_count db_abc \<and> db_count db_abc < 5 \<and>
   (\<exists>rs h'. vdb_search insertion_sort heap0 (Some db_abc) (Some [f1, f0]) 5 = Inr (Some rs, h') \<and>
      rs_count rs = 3 \<and> length (rs_results rs) = 3)"
proof -
  have c: "db_count db_abc = 3" "db_count db_new = 0" by (simp_all add: db_abc_def db_new_def)
  show ?thesis
    using search_degenerate[where qsort = insertion_sort and h = heap0 and db = "Some db_abc"
        and query = "Some [f1, f0]" and d = db_new and k = 2]
      search_degenerate[where qsort = insertion_sort and h = heap0 and d = db_abc
        and q = "[f1, f0]" and k = 5]
      insertion_sort_contract never_fails_heap0 in_bounds_abc c
    by simp
qed


section \<open>Persistence\<close>

lemma length_le_bytes [simp]: "length (le_bytes n v) = n"
  by (induction n arbitrary: v) auto

lemma le_value_le_bytes: "le_value (le_bytes n v) = v mod 256 ^ n"
proof (induction n arbitrary: v)
  case 0 then show ?case by simp
next
  case (Suc n)
  have "le_value (le_bytes (Suc n) v) = v mod 256 + 256 * ((v div 256) mod 256 ^ n)"
    by (simp add: Suc unat_of_nat)
  also have "\<dots> = v mod 256 ^ Suc n"
    by (simp add: mod_mult2_eq)
  finally show ?case .
qed

lemma le_value_le_bytes_id: "v < 256 ^ n \<Longrightarrow> le_value (le_bytes n v) = v"
  by (simp add: le_value_le_bytes)

lemma le_value_append: "le_value (xs @ ys) = le_value xs + 256 ^ length xs * le_value ys"
  by (induction xs) (simp_all add: algebra_simps)

lemma le_bytes_4:
  "le_bytes 4 v = [word_of_nat (v mod 256), word_of_nat (v div 256 mod 256),
                   word_of_nat (v div 256 div 256 mod 256),
                   word_of_nat (v div 256 div 256 div 256 mod 256)]"
proof -
  have "le_bytes (Suc (Suc (Suc (Suc 0)))) v = [word_of_nat (v mod 256), word_of_nat (v div 256 mod 256),
                   word_of_nat (v div 256 div 256 mod 256),
                   word_of_nat (v div 256 div 256 div 256 mod 256)]"
    by simp
  moreover have "(4::nat) = Suc (Suc (Suc (Suc 0)))" by simp
  ultimately show ?thesis by (simp only:)
qed

lemma le_bytes_8:
  "le_bytes 8 v = le_bytes 4 v @ le_bytes 4 (v div 256 div 256 div 256 div 256)"
proof -
  have "le_bytes (Suc (Suc (Suc (Suc (Suc (Suc (Suc (Suc 0)))))))) v =
          le_bytes (Suc (Suc (Suc (Suc 0)))) v
          @ le_bytes (Suc (Suc (Suc (Suc 0)))) (v div 256 div 256 div 256 div 256)"
    by simp
  moreover have "(4::nat) = Suc (Suc (Suc (Suc 0)))"
    "(8::nat) = Suc (Suc (Suc (Suc (Suc (Suc (Suc (Suc 0)))))))" by simp_all
  ultimately show ?thesis by (simp only:)
qed

lemma fread_exact:
  "length xs = sz * n \<Longrightarrow> 0 < sz \<Longrightarrow> fread sz n (xs @ rest) = (xs, n, rest)"
  by (simp add: fread_def)

lemma fread_le_bytes:
  "0 < n \<Longrightarrow> fread n 1 (le_bytes n v @ rest) = (le_bytes n v, 1, rest)"
  by (simp add: fread_def)

lemma floats_of_bytes:
  "floats_of (concat (map (\<lambda>x. le_bytes 4 (unat x)) ws)) = ws"
proof (induction ws)
  case Nil show ?case by simp
next
  case (Cons w ws)
  have "le_value (le_bytes 4 (unat w)) = unat w"
    using unsigned_less[of w, where 'a = nat] by (intro le_value_le_bytes_id) simp
  then have "word_of_nat (le_value (le_bytes 4 (unat w))) = w" by simp
  then show ?case using Cons
    by (simp add: le_bytes_4)
qed

lemma length_float_bytes:
  "length (concat (map (\<lambda>x. le_bytes 4 (unat x)) ws)) = 4 * length ws"
  by (induction ws) simp_all

lemma strlen_no_nul: "0 \<notin> set s \<Longrightarrow> strlen s = length s"
  by (induction s) (simp_all add: strlen_def)


lemma record_bytes_good:
  assumes "good_record dims v"
  shows "record_bytes dims v =
           concat (map (\<lambda>x. le_bytes 4 (unat x)) (v_data v))
           @ le_bytes 4 (case v_id v of None \<Rightarrow> 0 | Some s \<Rightarrow> length s)
           @ (case v_id v of None \<Rightarrow> [] | Some s \<Rightarrow> s)"
proof (cases "v_id v")
  case None
  with assms show ?thesis by (simp add: record_bytes_def good_record_def)
next
  case (Some s)
  with assms have s: "0 \<notin> set s" "length s < 2 ^ 32 - 1" "length (v_data v) = dims"
    by (simp_all add: good_record_def)
  then have "strlen s mod 2 ^ 32 = length s"
    by (simp add: strlen_no_nul)
  with Some s(3) show ?thesis by (simp add: record_bytes_def)
qed

lemma load_loop_step:
  assumes h: "never_fails h" and dims: "dims < 2 ^ 62" and db: "db_dimensions db = dims"
    and v: "good_record dims v"
  shows "\<exists>h'. never_fails h' \<and>
           load_loop dims (Suc n) h (record_bytes dims v @ tail) db =
             load_loop dims n h' tail
               (db\<lparr>db_capacity := (if db_capacity db \<le> db_count db then new_capacity db
                                     else db_capacity db),
                    db_vectors := (db_vectors db)(db_count db := loaded_vector v),
                    db_count := db_count db + 1\<rparr>) \<and>
           live h' = live h + 1 + (if v_id (loaded_vector v) = None then 0 else 1) +
                      (if db_capacity db = 0 then 1 else 0)"
proof -
  define fb where "fb = concat (map (\<lambda>x. le_bytes 4 (unat x)) (v_data v))"
  define idlen where "idlen = (case v_id v of None \<Rightarrow> 0 | Some s \<Rightarrow> length s)"
  define ib where "ib = (case v_id v of None \<Rightarrow> [] | Some s \<Rightarrow> s)"
  have rb: "record_bytes dims v @ tail = fb @ le_bytes 4 idlen @ ib @ tail"
    by (simp add: record_bytes_good[OF v] fb_def idlen_def ib_def)
  have len: "length (v_data v) = dims" using v by (simp add: good_record_def)
  have lfb: "length fb = 4 * dims" by (simp add: fb_def length_float_bytes len)
  have n: "(dims * 4) mod 2 ^ 64 = dims * 4" "(db_dimensions db * 4) mod 2 ^ 64 div 4 = dims"
    using dims db by simp_all
  have idlen: "idlen < 2 ^ 32 - 1" "length ib = idlen"
    using v by (auto simp: idlen_def ib_def good_record_def split: option.splits)
  have fd: "fread 4 dims (fb @ le_bytes 4 idlen @ ib @ tail) = (fb, dims, le_bytes 4 idlen @ ib @ tail)"
    by (rule fread_exact) (simp_all add: lfb)
  have fl: "fread 4 1 (le_bytes 4 idlen @ ib @ tail) = (le_bytes 4 idlen, 1, ib @ tail)"
    by (rule fread_le_bytes) simp
  have lv: "le_value (le_bytes 4 idlen) = idlen"
    using idlen by (intro le_value_le_bytes_id) simp
  have fi: "fread 1 idlen (ib @ tail) = (ib, idlen, tail)"
    by (rule fread_exact) (simp_all add: idlen)
  have fo: "floats_of fb = v_data v" by (simp add: fb_def floats_of_bytes)
  have ov: "\<not> (idlen + 1) mod 2 ^ 32 < idlen"
    using idlen by simp
  obtain h1 where h1: "VDB_MALLOC h = (True, h1)" "never_fails h1" "live h1 = live h + 1"
    using malloc_succeeds[OF h] by blast
  show ?thesis
  proof (cases "idlen = 0")
    case True
    then have lid: "v_id (loaded_vector v) = None"
      using v by (auto simp: loaded_vector_def idlen_def split: option.splits)
    obtain h3 where h3: "vdb_add_vector h1 (Some db) (Some (v_data v)) None None =
        Inr (VDB_OK,
             Some (db\<lparr>db_capacity := (if db_capacity db \<le> db_count db then new_capacity db
                                        else db_capacity db),
                       db_vectors := (db_vectors db)(db_count db :=
                         \<lparr>v_data = take dims (v_data v), v_id = None, v_metadata = None\<rparr>),
                       db_count := db_count db + 1\<rparr>), h3)"
        "never_fails h3" "live h3 = live h1 + 1 + (if db_capacity db = 0 then 1 else 0)"
      using add_vector_ok[OF h1(2), of db "v_data v" None None] len unfolding n by auto
    have lv': "loaded_vector v = \<lparr>v_data = take dims (v_data v), v_id = None, v_metadata = None\<rparr>"
      using lid len by (simp add: loaded_vector_def)
    show ?thesis
      apply (rule exI[of _ "VDB_FREE False (VDB_FREE True h3)"])
      using h3 h1 lid fd[unfolded True] fl[unfolded True] lv[unfolded True] n lfb
        idlen(2)[unfolded True]
      by (simp add: rb[unfolded True] fo Let_def lv'[symmetric])
  next
    case False
    then obtain s where s: "v_id v = Some s" "s \<noteq> []" "ib = s" "0 \<notin> set s"
      using v by (auto simp: idlen_def ib_def good_record_def split: option.splits)
    then have lid: "v_id (loaded_vector v) = Some s"
      by (simp add: loaded_vector_def)
    obtain h2 where h2: "VDB_MALLOC h1 = (True, h2)" "never_fails h2" "live h2 = live h1 + 1"
      using malloc_succeeds[OF h1(2)] by blast
    obtain h3 where h3: "vdb_add_vector h2 (Some db) (Some (v_data v)) (Some ib) None =
        Inr (VDB_OK,
             Some (db\<lparr>db_capacity := (if db_capacity db \<le> db_count db then new_capacity db
                                        else db_capacity db),
                       db_vectors := (db_vectors db)(db_count db :=
                         \<lparr>v_data = take dims (v_data v), v_id = Some (take (strlen ib) ib),
                          v_metadata = None\<rparr>),
                       db_count := db_count db + 1\<rparr>), h3)"
        "never_fails h3" "live h3 = live h2 + 2 + (if db_capacity db = 0 then 1 else 0)"
      using add_vector_ok[OF h2(2), of db "v_data v" "Some ib" None] len unfolding n by auto
    have lv': "loaded_vector v = \<lparr>v_data = take dims (v_data v), v_id = Some (take (strlen ib) ib),
                          v_metadata = None\<rparr>"
      using s len by (simp add: loaded_vector_def strlen_no_nul)
    show ?thesis
      apply (rule exI[of _ "VDB_FREE True (VDB_FREE True h3)"])
      using False h3 h2 h1 lid ov fd fl lv fi n lfb idlen
      by (simp add: rb fo Let_def lv'[symmetric])
  qed
qed


lemma load_loop_records:
  assumes dims: "dims < 2 ^ 62"
  shows "never_fails h \<Longrightarrow> db_dimensions db = dims \<Longrightarrow> \<forall>v\<in>set vs. good_record dims v \<Longrightarrow>
    \<exists>d' h'. load_loop dims (length vs) h (concat (map (record_bytes dims) vs) @ tail) db
               = Inr (Some d', h') \<and>
            never_fails h' \<and> db_count d' = db_count db + length vs \<and>
            db_dimensions d' = dims \<and> db_metric d' = db_metric db \<and>
            (\<forall>i. i < db_count db \<longrightarrow> db_vectors d' i = db_vectors db i) \<and>
            (\<forall>j. j < length vs \<longrightarrow> db_vectors d' (db_count db + j) = loaded_vector (vs ! j))"
proof (induction vs arbitrary: h db)
  case Nil
  then show ?case by simp
next
  case (Cons v vs)
  let ?db1 = "db\<lparr>db_capacity := (if db_capacity db \<le> db_count db then new_capacity db
                                     else db_capacity db),
                    db_vectors := (db_vectors db)(db_count db := loaded_vector v),
                    db_count := db_count db + 1\<rparr>"
  from Cons.prems have v: "good_record dims v" and vs: "\<forall>v\<in>set vs. good_record dims v"
    by simp_all
  obtain h1 where h1: "never_fails h1"
      "load_loop dims (Suc (length vs)) h
         (record_bytes dims v @ concat (map (record_bytes dims) vs) @ tail) db =
       load_loop dims (length vs) h1 (concat (map (record_bytes dims) vs) @ tail) ?db1"
    using load_loop_step[OF Cons.prems(1) dims Cons.prems(2) v] by blast
  have "db_dimensions ?db1 = dims" using Cons.prems(2) by simp
  from Cons.IH[OF h1(1) this vs]
  obtain d' h' where r:
      "load_loop dims (length vs) h1 (concat (map (record_bytes dims) vs) @ tail) ?db1
         = Inr (Some d', h')"
      "never_fails h'" "db_count d' = db_count ?db1 + length vs"
      "db_dimensions d' = dims" "db_metric d' = db_metric ?db1"
      "\<forall>i. i < db_count ?db1 \<longrightarrow> db_vectors d' i = db_vectors ?db1 i"
      "\<forall>j. j < length vs \<longrightarrow> db_vectors d' (db_count ?db1 + j) = loaded_vector (vs ! j)"
    by blast
  have old: "\<forall>i. i < db_count db \<longrightarrow> db_vectors d' i = db_vectors db i"
    using r(6) by simp
  have new: "\<forall>j. j < length (v # vs) \<longrightarrow> db_vectors d' (db_count db + j) = loaded_vector ((v # vs) ! j)"
  proof (intro allI impI)
    fix j assume j: "j < length (v # vs)"
    show "db_vectors d' (db_count db + j) = loaded_vector ((v # vs) ! j)"
    proof (cases j)
      case 0
      then show ?thesis using r(6) by simp
    next
      case (Suc m)
      then show ?thesis using r(7) j by simp
    qed
  qed
  show ?case
    using h1(2) r(1,2,3,4,5) old new
    by (intro exI[of _ d'] exI[of _ h']) simp
qed

lemma save_loop_Suc:
  "save_loop d i = Inr w \<Longrightarrow> db_dimensions d \<le> length (v_data (db_vectors d i)) \<Longrightarrow>
   save_loop d (Suc i) = Inr (w @ record_bytes (db_dimensions d) (db_vectors d i))"
  by (simp add: Let_def record_bytes_def split: option.splits)

lemma save_loop_bytes:
  "\<forall>i. i < n \<longrightarrow> db_dimensions d \<le> length (v_data (db_vectors d i)) \<Longrightarrow>
   save_loop d n = Inr (concat (map (record_bytes (db_dimensions d)) (map (db_vectors d) [0..<n])))"
proof (induction n)
  case 0 show ?case by simp
next
  case (Suc n)
  then have "save_loop d n =
      Inr (concat (map (record_bytes (db_dimensions d)) (map (db_vectors d) [0..<n])))"
    and "db_dimensions d \<le> length (v_data (db_vectors d n))"
    by simp_all
  from save_loop_Suc[OF this] show ?case
    by simp
qed

lemma persistable_records:
  assumes "persistable d"
  shows "\<forall>v\<in>set (map (db_vectors d) [0..<db_count d]). good_record (db_dimensions d) v"
  using assms
  by (auto simp: persistable_def well_formed_def good_record_def list_all_iff split: option.splits)


lemma load_saved_file:
  assumes p: "persistable d" and h: "never_fails h"
    and f: "contents fs name =
              Some (le_bytes 4 0x56444230 @ le_bytes 8 (db_dimensions d) @ le_bytes 8 (db_count d)
                    @ le_bytes 4 (unat (db_metric d))
                    @ concat (map (record_bytes (db_dimensions d))
                                (map (db_vectors d) [0..<db_count d])))"
  shows "\<exists>d' h'. vdb_load h fs (Some name) = Inr (Some d', h') \<and>
           db_dimensions d' = db_dimensions d \<and> db_metric d' = db_metric d \<and>
           db_count d' = db_count d \<and>
           (\<forall>i. i < db_count d \<longrightarrow> db_vectors d' i = loaded_vector (db_vectors d i))"
proof -
  let ?vs = "map (db_vectors d) [0..<db_count d]"
  let ?recs = "concat (map (record_bytes (db_dimensions d)) ?vs)"
  let ?db0 = "\<lparr>db_vectors = no_vectors, db_count = 0, db_capacity = 0,
               db_dimensions = db_dimensions d, db_metric = db_metric d\<rparr>"
  from p have dims: "0 < db_dimensions d" "db_dimensions d < 2 ^ 62" and cnt: "db_count d < 2 ^ 64"
    by (simp_all add: persistable_def)
  have f1: "fread 4 1 (le_bytes 4 0x56444230 @ le_bytes 8 (db_dimensions d) @ le_bytes 8 (db_count d)
                    @ le_bytes 4 (unat (db_metric d)) @ ?recs)
            = (le_bytes 4 0x56444230, 1, le_bytes 8 (db_dimensions d) @ le_bytes 8 (db_count d)
                    @ le_bytes 4 (unat (db_metric d)) @ ?recs)"
    by (rule fread_le_bytes) simp
  have f2: "fread 8 1 (le_bytes 8 (db_dimensions d) @ le_bytes 8 (db_count d)
                    @ le_bytes 4 (unat (db_metric d)) @ ?recs)
            = (le_bytes 8 (db_dimensions d), 1, le_bytes 8 (db_count d)
                    @ le_bytes 4 (unat (db_metric d)) @ ?recs)"
    by (rule fread_le_bytes) simp
  have f3: "fread 8 1 (le_bytes 8 (db_count d) @ le_bytes 4 (unat (db_metric d)) @ ?recs)
            = (le_bytes 8 (db_count d), 1, le_bytes 4 (unat (db_metric d)) @ ?recs)"
    by (rule fread_le_bytes) simp
  have f4: "fread 4 1 (le_bytes 4 (unat (db_metric d)) @ ?recs)
            = (le_bytes 4 (unat (db_metric d)), 1, ?recs)"
    by (rule fread_le_bytes) simp
  have v1: "le_value (le_bytes 4 0x56444230) = 0x56444230"
    by (intro le_value_le_bytes_id) simp
  have v2: "le_value (le_bytes 8 (db_dimensions d)) = db_dimensions d"
    using dims(2) by (intro le_value_le_bytes_id) simp
  have v3: "le_value (le_bytes 8 (db_count d)) = db_count d"
    using cnt by (intro le_value_le_bytes_id) simp
  have "le_value (le_bytes 4 (unat (db_metric d))) = unat (db_metric d)"
    using unsigned_less[of "db_metric d", where 'a = nat] by (intro le_value_le_bytes_id) simp
  then have v4: "word_of_nat (le_value (le_bytes 4 (unat (db_metric d)))) = db_metric d"
    by simp
  obtain h1 where h1: "VDB_MALLOC h = (True, h1)" "never_fails h1"
    using malloc_succeeds[OF h] by blast
  have c: "vdb_create h (db_dimensions d) (db_metric d) = (Some ?db0, h1)"
    using dims(1) h1(1) by (simp add: vdb_create_def)
  have "db_dimensions ?db0 = db_dimensions d" by simp
  from load_loop_records[OF dims(2) h1(2) this persistable_records[OF p], of "[]"]
  obtain d' h' where r: "load_loop (db_dimensions d) (db_count d) h1 ?recs ?db0 = Inr (Some d', h')"
      "db_count d' = db_count d" "db_dimensions d' = db_dimensions d" "db_metric d' = db_metric d"
      "\<forall>j. j < db_count d \<longrightarrow> db_vectors d' j = loaded_vector (db_vectors d j)"
    by auto
  have "vdb_load h fs (Some name) = Inr (Some d', h')"
    using f f1 f2 f3 f4 v1 v2 v3 v4 c r(1)
    by (simp add: vdb_load_def)
  with r show ?thesis by blast
qed

lemma save_empty_id:
  "vdb_save fs0 (Some db_empty_id) (Some ''db.vdb'') =
     Inr (VDB_OK, fs0\<lparr>contents := (contents fs0)(''db.vdb'' \<mapsto> file_empty_id)\<rparr>)"
  by (simp add: vdb_save_def fs0_def db_empty_id_def file_empty_id_def Let_def strlen_def
      le_bytes_4 le_bytes_8 f1_def VDB_METRIC_COSINE_def)

lemma load_empty_id:
  "vdb_load heap0 (fs0\<lparr>contents := (contents fs0)(''db.vdb'' \<mapsto> file_empty_id)\<rparr>) (Some ''db.vdb'') =
     Inr (Some (db_empty_id\<lparr>db_vectors :=
                   no_vectors(0 := \<lparr>v_data = [f1], v_id = None, v_metadata = None\<rparr>)\<rparr>),
          \<lparr>outcomes = [], live = 3\<rparr>)"
  by (simp add: vdb_load_def fs0_def db_empty_id_def file_empty_id_def Let_def fread_def
      vdb_create_def heap0_def VDB_MALLOC_def VDB_REALLOC_def VDB_FREE_def vdb_add_vector_def
      f1_def VDB_METRIC_COSINE_def)

text \<open>
  Claim C2 says that loading a saved database gives back identical identifiers, \<^verbatim>\<open>NULL\<close>
  being distinct from the empty string. The format stores an identifier as its length and
  its bytes, \<^verbatim>\<open>vdb_save\<close> writes length 0 for \<^verbatim>\<open>NULL\<close> and for \<^verbatim>\<open>""\<close> alike, and
  \<^verbatim>\<open>vdb_load\<close> reads length 0 as \<^verbatim>\<open>NULL\<close>: the empty identifier comes back absent.
\<close>

theorem empty_identifier_loads_absent:
  "vdb_save fs0 (Some db_empty_id) (Some ''db.vdb'') =
     Inr (VDB_OK, fs0\<lparr>contents := (contents fs0)(''db.vdb'' \<mapsto> file_empty_id)\<rparr>) \<and>
   vdb_load heap0 (fs0\<lparr>contents := (contents fs0)(''db.vdb'' \<mapsto> file_empty_id)\<rparr>) (Some ''db.vdb'') =
     Inr (Some (db_empty_id\<lparr>db_vectors :=
                   no_vectors(0 := \<lparr>v_data = [f1], v_id = None, v_metadata = None\<rparr>)\<rparr>),
          \<lparr>outcomes = [], live = 3\<rparr>) \<and>
   v_id (db_vectors db_empty_id 0) = Some [] \<and>
   v_id (db_vectors (db_empty_id\<lparr>db_vectors :=
           no_vectors(0 := \<lparr>v_data = [f1], v_id = None, v_metadata = None\<rparr>)\<rparr>) 0) = None"
  using save_empty_id load_empty_id by (simp add: db_empty_id_def)

text \<open>
  Claim C2 as amended. For every well-formed database whose dimensions, count and
  identifier lengths fit the fields of the format (\<open>persistable\<close>), every writable file
  name and allocations that succeed, \<^verbatim>\<open>vdb_save\<close> succeeds and \<^verbatim>\<open>vdb_load\<close> of the file it
  wrote returns a database with the same dimensions, metric and count, the same vectors in
  the same order, and the same identifiers except that an empty-string identifier is
  loaded as absent; every attachment of the loaded database is absent.
\<close>

theorem save_load_round_trip:
  assumes "persistable d" and "never_fails h" and "writable fs name"
  shows "\<exists>fs' d' h'. vdb_save fs (Some d) (Some name) = Inr (VDB_OK, fs') \<and>
           vdb_load h fs' (Some name) = Inr (Some d', h') \<and>
           db_dimensions d' = db_dimensions d \<and> db_metric d' = db_metric d \<and>
           db_count d' = db_count d \<and>
           (\<forall>i. i < db_count d \<longrightarrow>
              v_data (db_vectors d' i) = v_data (db_vectors d i) \<and>
              v_id (db_vectors d' i) =
                (if v_id (db_vectors d i) = Some [] then None else v_id (db_vectors d i)) \<and>
              v_metadata (db_vectors d' i) = None)"
proof -
  let ?file = "le_bytes 4 0x56444230 @ le_bytes 8 (db_dimensions d) @ le_bytes 8 (db_count d)
                 @ le_bytes 4 (unat (db_metric d))
                 @ concat (map (record_bytes (db_dimensions d)) (map (db_vectors d) [0..<db_count d]))"
  let ?fs' = "fs\<lparr>contents := (contents fs)(name \<mapsto> ?file)\<rparr>"
  have "\<forall>i. i < db_count d \<longrightarrow> db_dimensions d \<le> length (v_data (db_vectors d i))"
    using assms(1) by (auto simp: persistable_def well_formed_def list_all_iff)
  from save_loop_bytes[OF this] assms(3)
  have s: "vdb_save fs (Some d) (Some name) = Inr (VDB_OK, ?fs')"
    by (simp add: vdb_save_def)
  have "contents ?fs' name = Some ?file" by simp
  from load_saved_file[OF assms(1,2) this]
  obtain d' h' where l: "vdb_load h ?fs' (Some name) = Inr (Some d', h')"
      "db_dimensions d' = db_dimensions d" "db_metric d' = db_metric d" "db_count d' = db_count d"
      "\<forall>i. i < db_count d \<longrightarrow> db_vectors d' i = loaded_vector (db_vectors d i)"
    by blast
  show ?thesis
    using s l by (intro exI[of _ ?fs'] exI[of _ d'] exI[of _ h']) (simp add: loaded_vector_def)
qed

text \<open>The store of three records, with identifiers \<^verbatim>\<open>"a"\<close>, \<^verbatim>\<open>"b"\<close> and none, and one attachment.\<close>

theorem save_load_round_trip_witness:
  "persistable db_abc \<and> never_fails heap0 \<and> writable fs0 ''db.vdb'' \<and>
   (\<exists>fs' d' h'. vdb_save fs0 (Some db_abc) (Some ''db.vdb'') = Inr (VDB_OK, fs') \<and>
      vdb_load heap0 fs' (Some ''db.vdb'') = Inr (Some d', h') \<and>
      db_dimensions d' = 2 \<and> db_count d' = 3 \<and>
      v_data (db_vectors d' 0) = [f1, f0] \<and> v_id (db_vectors d' 0) = Some [0x61] \<and>
      v_metadata (db_vectors d' 0) = None \<and>
      v_data (db_vectors d' 2) = [f2, f0] \<and> v_id (db_vectors d' 2) = None)"
proof -
  have p: "persistable db_abc"
    by (simp add: persistable_def well_formed_def db_abc_def upt_0_3 rec_a_def rec_b_def rec_c_def)
  have w: "writable fs0 ''db.vdb''" by (simp add: fs0_def)
  have c: "db_count db_abc = 3" "db_dimensions db_abc = 2"
    "db_vectors db_abc 0 = rec_a" "db_vectors db_abc 2 = rec_c"
    by (simp_all add: db_abc_def)
  from save_load_round_trip[OF p never_fails_heap0 w]
  obtain fs' d' h' where r: "vdb_save fs0 (Some db_abc) (Some ''db.vdb'') = Inr (VDB_OK, fs')"
      "vdb_load heap0 fs' (Some ''db.vdb'') = Inr (Some d', h')"
      "db_dimensions d' = 2" "db_count d' = 3"
      "\<forall>i. i < 3 \<longrightarrow>
         v_data (db_vectors d' i) = v_data (db_vectors db_abc i) \<and>
         v_id (db_vectors d' i) =
           (if v_id (db_vectors db_abc i) = Some [] then None else v_id (db_vectors db_abc i)) \<and>
         v_metadata (db_vectors d' i) = None"
    unfolding c by blast
  from r(5) have "v_data (db_vectors d' 0) = [f1, f0]" "v_id (db_vectors d' 0) = Some [0x61]"
      "v_metadata (db_vectors d' 0) = None"
      "v_data (db_vectors d' 2) = [f2, f0]" "v_id (db_vectors d' 2) = None"
    by (simp_all add: c rec_a_def rec_c_def)
  with r(1-4) p w never_fails_heap0 show ?thesis by blast
qed

text \<open>
  Claim C7. \<^verbatim>\<open>vdb_load\<close> allocates the identifier buffer with \<^verbatim>\<open>id_len + 1\<close> bytes, a sum
  computed in \<^verbatim>\<open>uint32_t\<close>. For \<open>id_len = 2 ^ 32 - 1\<close> the sum is 0, and the following
  \<^verbatim>\<open>fread\<close> stores the bytes the file still holds into a buffer of no bytes before its
  short count can be compared: on this truncated file the load overruns the buffer instead
  of failing (with an allocator that returns a block for a request of 0 bytes).
\<close>

theorem load_overruns_identifier_buffer:
  "vdb_load heap0 (fs0\<lparr>contents := (contents fs0)(''db.vdb'' \<mapsto> file_long_id)\<rparr>) (Some ''db.vdb'')
     = Inl Heap_Buffer_Overflow"
  by (simp add: vdb_load_def fs0_def file_long_id_def Let_def fread_def
      vdb_create_def heap0_def VDB_MALLOC_def)


text \<open>The length field of that file, the wrapped allocation size, and the outcome of the load.\<close>

theorem load_overruns_identifier_buffer_witness:
  "le_value [0xFF, 0xFF, 0xFF, 0xFF] = 4294967295 \<and>
   (le_value [0xFF, 0xFF, 0xFF, 0xFF] + 1) mod 2 ^ 32 = 0 \<and>
   vdb_load heap0 (fs0\<lparr>contents := (contents fs0)(''db.vdb'' \<mapsto> file_long_id)\<rparr>) (Some ''db.vdb'')
     = Inl Heap_Buffer_Overflow"
  using load_overruns_identifier_buffer by simp

section \<open>Further properties\<close>

subsection \<open>Loading is all or nothing\<close>

lemma live_free_loop:
  "live (foldl (\<lambda>h i. VDB_FREE (p i) (VDB_FREE True h)) h [0..<n]) =
     live h - (\<Sum>i<n. 1 + (if p i then 1 else 0))"
  by (induction n) simp_all

lemma live_destroy: "live (vdb_destroy h (Some d)) = live h - blocks d"
  by (simp add: vdb_destroy_def blocks_def Let_def live_free_loop)

lemma blocks_capacity:
  "blocks (d\<lparr>db_capacity := c\<rparr>) =
     blocks d + (if c = 0 then 0 else 1) - (if db_capacity d = 0 then 0 else 1)"
  by (simp add: blocks_def)

lemma add_vector_blocks:
  assumes "vdb_add_vector h (Some d) (Some buf) id_str md = Inr (err, db', h')"
  shows "\<exists>d'. db' = Some d' \<and> live h' - blocks d' = live h - blocks d \<and>
           db_dimensions d' = db_dimensions d \<and> db_metric d' = db_metric d \<and>
           db_count d' = (if err = VDB_OK then db_count d + 1 else db_count d)"
proof -
  have nz: "new_capacity d \<noteq> 0" by (simp add: new_capacity_def)
  from add_vector_Inr[OF assms] show ?thesis
  proof (elim disjE exE conjE)
    fix c
    assume "err = VDB_ERROR_OUT_OF_MEMORY" "db' = Some (d\<lparr>db_capacity := c\<rparr>)"
      "c = db_capacity d" "live h' = live h"
    then show ?thesis by (simp add: blocks_capacity)
  next
    fix c
    assume "err = VDB_ERROR_OUT_OF_MEMORY" "db' = Some (d\<lparr>db_capacity := c\<rparr>)"
      "c = new_capacity d" "live h' = live h + (if db_capacity d = 0 then 1 else 0)"
    then show ?thesis using nz by (simp add: blocks_capacity)
  next
    let ?c = "if db_capacity d \<le> db_count d then new_capacity d else db_capacity d"
    let ?v = "\<lparr>v_data = take ((db_dimensions d * 4) mod 2 ^ 64 div 4) buf,
               v_id = map_option (\<lambda>s. take (strlen s) s) id_str, v_metadata = md\<rparr>"
    assume a: "err = VDB_OK"
      "db' = Some (d\<lparr>db_capacity := ?c, db_vectors := (db_vectors d)(db_count d := ?v),
                      db_count := db_count d + 1\<rparr>)"
      "live h' = live h + 1 + (if id_str = None then 0 else 1) + (if db_capacity d = 0 then 1 else 0)"
    have c: "?c \<noteq> 0" using nz by auto
    have "blocks (d\<lparr>db_capacity := ?c, db_vectors := (db_vectors d)(db_count d := ?v),
                      db_count := db_count d + 1\<rparr>)
          = blocks d + (if db_capacity d = 0 then 1 else 0) + 1 + (if id_str = None then 0 else 1)"
      using c by (simp add: blocks_def)
    with a show ?thesis by simp
  qed
qed


lemma add_vector_in_loop:
  assumes a: "vdb_add_vector h (Some db) (Some buf) id_str md = Inr (err, db', h3)"
    and l: "live h = l + 1 + (if p then 1 else 0)"
    and b: "(if err \<noteq> VDB_OK then Inr (None, vdb_destroy (VDB_FREE p (VDB_FREE True h3)) db')
             else (case db' of None \<Rightarrow> Inr (None, VDB_FREE p (VDB_FREE True h3))
                   | Some d' \<Rightarrow> load_loop dims n (VDB_FREE p (VDB_FREE True h3)) f' d'))
            = Inr (r, h')"
  shows "(r = None \<and> live h' = l - blocks db) \<or>
         (\<exists>h4 f' d'. load_loop dims n h4 f' d' = Inr (r, h') \<and>
            live h4 - blocks d' = l - blocks db \<and>
            db_count d' = db_count db + 1 \<and>
            db_dimensions d' = db_dimensions db \<and> db_metric d' = db_metric db)"
proof -
  from add_vector_blocks[OF a] obtain d' where d': "db' = Some d'"
      "live h3 - blocks d' = live h - blocks db"
      "db_dimensions d' = db_dimensions db" "db_metric d' = db_metric db"
      "db_count d' = (if err = VDB_OK then db_count db + 1 else db_count db)"
    by blast
  let ?h4 = "VDB_FREE p (VDB_FREE True h3)"
  have h4: "live ?h4 - blocks d' = l - blocks db"
    using d'(2) l by auto
  show ?thesis
  proof (cases "err = VDB_OK")
    case True
    with b d' have "load_loop dims n ?h4 f' d' = Inr (r, h')" by simp
    with h4 d' True show ?thesis
      by (intro disjI2 exI[of _ ?h4] exI[of _ f'] exI[of _ d']) simp
  next
    case False
    with b d' have "r = None" "h' = vdb_destroy ?h4 (Some d')" by auto
    with h4 show ?thesis by (simp add: live_destroy)
  qed
qed

lemma load_loop_iteration:
  assumes "load_loop dims (Suc n) h f db = Inr (r, h')"
  shows "(r = None \<and> live h' = live h - blocks db) \<or>
         (\<exists>h4 f' d'. load_loop dims n h4 f' d' = Inr (r, h') \<and>
            live h4 - blocks d' = live h - blocks db \<and>
            db_count d' = db_count db + 1 \<and>
            db_dimensions d' = db_dimensions db \<and> db_metric d' = db_metric db)"
proof (cases "fst (VDB_MALLOC h)")
  case False
  with assms show ?thesis
    by (auto simp: split_beta live_destroy live_malloc)
next
  case True
  define h1 where "h1 = snd (VDB_MALLOC h)"
  have h1: "VDB_MALLOC h = (True, h1)" "live h1 = live h + 1"
    using True by (simp_all add: h1_def live_malloc prod_eq_iff)
  obtain data n_data f1 where fd: "fread 4 dims f = (data, n_data, f1)"
    by (cases "fread 4 dims f") auto
  obtain len_bytes n_len f2 where fl: "fread 4 1 f1 = (len_bytes, n_len, f2)"
    by (cases "fread 4 1 f1") auto
  obtain id_buf n_id f3 where fi: "fread 1 (le_value len_bytes) f2 = (id_buf, n_id, f3)"
    by (cases "fread 1 (le_value len_bytes) f2") auto
  show ?thesis
  proof (cases "n_data \<noteq> dims \<or> n_len \<noteq> 1")
    case True
    with assms h1 fd fl show ?thesis
      by (auto simp: live_destroy split: if_splits)
  next
    case ok: False
    show ?thesis
    proof (cases "le_value len_bytes > 0")
      case False
      with assms h1 fd fl ok obtain err db' h3 where
        a: "vdb_add_vector h1 (Some db) (Some (floats_of data)) None None = Inr (err, db', h3)"
        and b: "(if err \<noteq> VDB_OK then Inr (None, vdb_destroy (VDB_FREE False (VDB_FREE True h3)) db')
                else (case db' of None \<Rightarrow> Inr (None, VDB_FREE False (VDB_FREE True h3))
                      | Some d' \<Rightarrow> load_loop dims n (VDB_FREE False (VDB_FREE True h3)) f2 d'))
                = Inr (r, h')"
        by (auto simp: Let_def split: if_splits sum.splits)
      have l: "live h1 = live h + 1 + (if False then 1 else 0)" using h1 by simp
      from add_vector_in_loop[OF a l b] show ?thesis .
    next
      case True
      show ?thesis
      proof (cases "fst (VDB_MALLOC h1)")
        case False
        with assms h1 fd fl ok True show ?thesis
          by (auto simp: split_beta live_destroy live_malloc split: if_splits)
      next
        case m2: True
        define h2 where "h2 = snd (VDB_MALLOC h1)"
        have h2: "VDB_MALLOC h1 = (True, h2)" "live h2 = live h + 1 + 1"
          using m2 h1 by (simp_all add: h2_def live_malloc prod_eq_iff)
        show ?thesis
        proof (cases "n_id \<noteq> le_value len_bytes")
          case True
          with assms h1 h2 fd fl fi ok \<open>le_value len_bytes > 0\<close> show ?thesis
            by (auto simp: live_destroy Let_def split: if_splits)
        next
          case False
          with assms h1 h2 fd fl fi ok \<open>le_value len_bytes > 0\<close> obtain err db' h3 where
            a: "vdb_add_vector h2 (Some db) (Some (floats_of data)) (Some id_buf) None = Inr (err, db', h3)"
            and b: "(if err \<noteq> VDB_OK then Inr (None, vdb_destroy (VDB_FREE True (VDB_FREE True h3)) db')
                else (case db' of None \<Rightarrow> Inr (None, VDB_FREE True (VDB_FREE True h3))
                      | Some d' \<Rightarrow> load_loop dims n (VDB_FREE True (VDB_FREE True h3)) f3 d'))
                = Inr (r, h')"
            by (auto simp: Let_def split: if_splits sum.splits)
          have l: "live h2 = live h + 1 + (if True then 1 else 0)" using h2 by simp
          from add_vector_in_loop[OF a l b] show ?thesis .
        qed
      qed
    qed
  qed
qed


lemma load_loop_result:
  "load_loop dims n h f db = Inr (r, h') \<Longrightarrow>
     (r = None \<and> live h' = live h - blocks db) \<or>
     (\<exists>d. r = Some d \<and> db_count d = db_count db + n \<and>
          db_dimensions d = db_dimensions db \<and> db_metric d = db_metric db \<and>
          live h' - blocks d = live h - blocks db)"
proof (induction n arbitrary: h f db)
  case 0
  then show ?case by auto
next
  case (Suc n)
  from load_loop_iteration[OF Suc.prems] show ?case
  proof (elim disjE exE conjE)
    assume "r = None" "live h' = live h - blocks db"
    then show ?thesis by simp
  next
    fix h4 f' d'
    assume a: "load_loop dims n h4 f' d' = Inr (r, h')"
      and b: "live h4 - blocks d' = live h - blocks db" "db_count d' = db_count db + 1"
        "db_dimensions d' = db_dimensions db" "db_metric d' = db_metric db"
    from Suc.IH[OF a] b show ?thesis by auto
  qed
qed


lemma create_blocks:
  assumes "vdb_create h dimensions metric = (r, h1)"
  shows "(r = None \<and> live h1 = live h) \<or>
         (r = Some \<lparr>db_vectors = no_vectors, db_count = 0, db_capacity = 0,
                    db_dimensions = dimensions, db_metric = metric\<rparr> \<and> live h1 = live h + 1)"
  using assms by (auto simp: vdb_create_def split_beta live_malloc split: if_splits)

lemma fread_one:
  "0 < sz \<Longrightarrow> fread sz (Suc 0) f = (take sz f, (if sz \<le> length f then 1 else 0), drop sz f)"
  by (auto simp: fread_def Let_def min_def)

lemma vdb_load_short:
  assumes "contents fs name = Some f" and "length f < 24"
  shows "vdb_load h fs (Some name) = Inr (None, h)"
proof -
  have "\<not> 4 \<le> length f \<or> \<not> 8 \<le> length f - 4 \<or> \<not> 8 \<le> length f - (8 + 4)
          \<or> \<not> 4 \<le> length f - (8 + (8 + 4))"
    using assms(2) by arith
  then show ?thesis
    using assms(1) by (auto simp add: vdb_load_def fread_one Let_def)
qed

lemma vdb_load_header:
  assumes "contents fs name = Some f" and "24 \<le> length f"
  shows "vdb_load h fs (Some name) =
     (if le_value (take 4 f) \<noteq> 0x56444230 then Inr (None, h)
      else (case vdb_create h (le_value (take 8 (drop 4 f)))
                   (word_of_nat (le_value (take 4 (drop 20 f)))) of
              (None, h1) \<Rightarrow> Inr (None, h1)
            | (Some db, h1) \<Rightarrow>
                load_loop (le_value (take 8 (drop 4 f))) (le_value (take 8 (drop 12 f))) h1
                  (drop 24 f) db))"
proof -
  have "4 \<le> length f" "8 \<le> length f - 4" "8 \<le> length f - 12" "4 \<le> length f - 20"
    using assms(2) by simp_all
  then show ?thesis
    using assms(1) by (simp add: vdb_load_def fread_one Let_def)
qed

lemma vdb_load_parsed:
  assumes "contents fs name = Some f"
  shows "vdb_load h fs (Some name) =
     (if length f < 24 \<or> le_value (take 4 f) \<noteq> 0x56444230 then Inr (None, h)
      else (case vdb_create h (le_value (take 8 (drop 4 f)))
                   (word_of_nat (le_value (take 4 (drop 20 f)))) of
              (None, h1) \<Rightarrow> Inr (None, h1)
            | (Some db, h1) \<Rightarrow>
                load_loop (le_value (take 8 (drop 4 f))) (le_value (take 8 (drop 12 f))) h1
                  (drop 24 f) db))"
proof (cases "length f < 24")
  case True
  then show ?thesis using vdb_load_short[OF assms True] by simp
next
  case False
  then have "24 \<le> length f" by simp
  from vdb_load_header[OF assms this] False show ?thesis by simp
qed

lemma vdb_load_bad_magic:
  assumes "contents fs name = Some f" and "length f < 4 \<or> le_value (take 4 f) \<noteq> 0x56444230"
  shows "vdb_load h fs (Some name) = Inr (None, h)"
  using assms by (auto simp: vdb_load_parsed)

text \<open>
  Whenever \<^verbatim>\<open>vdb_load\<close> returns (no buffer was overrun), it returns either \<^verbatim>\<open>NULL\<close> with
  every block it allocated freed again, or a database whose dimensions, count and metric
  are those of the file's header, after a matching magic tag, and which owns every block
  still allocated. A file whose first four bytes are missing or are not the magic tag is
  refused before anything else is read or allocated.
\<close>

theorem load_complete_or_absent:
  "(vdb_load h fs filename = Inr (r, h') \<longrightarrow>
      (r = None \<and> live h' = live h) \<or>
      (\<exists>d name f. r = Some d \<and> filename = Some name \<and> contents fs name = Some f \<and>
         24 \<le> length f \<and> le_value (take 4 f) = 0x56444230 \<and>
         db_dimensions d = le_value (take 8 (drop 4 f)) \<and>
         db_count d = le_value (take 8 (drop 12 f)) \<and>
         db_metric d = word_of_nat (le_value (take 4 (drop 20 f))) \<and>
         live h' = live h + blocks d)) \<and>
   (contents fs name = Some f \<and> (length f < 4 \<or> le_value (take 4 f) \<noteq> 0x56444230) \<longrightarrow>
      vdb_load h fs (Some name) = Inr (None, h))"
proof (intro conjI impI)
  assume "contents fs name = Some f \<and> (length f < 4 \<or> le_value (take 4 f) \<noteq> 0x56444230)"
  then show "vdb_load h fs (Some name) = Inr (None, h)"
    using vdb_load_bad_magic by blast
next
  assume a: "vdb_load h fs filename = Inr (r, h')"
  show "(r = None \<and> live h' = live h) \<or>
      (\<exists>d name f. r = Some d \<and> filename = Some name \<and> contents fs name = Some f \<and>
         24 \<le> length f \<and> le_value (take 4 f) = 0x56444230 \<and>
         db_dimensions d = le_value (take 8 (drop 4 f)) \<and>
         db_count d = le_value (take 8 (drop 12 f)) \<and>
         db_metric d = word_of_nat (le_value (take 4 (drop 20 f))) \<and>
         live h' = live h + blocks d)"
  proof (cases filename)
    case None with a show ?thesis by (simp add: vdb_load_def)
  next
    case (Some name)
    show ?thesis
    proof (cases "contents fs name")
      case None with a Some show ?thesis by (simp add: vdb_load_def)
    next
      case f: (Some f)
      let ?dims = "le_value (take 8 (drop 4 f))"
      let ?metric = "word_of_nat (le_value (take 4 (drop 20 f))) :: vdb_metric"
      let ?db0 = "\<lparr>db_vectors = no_vectors, db_count = 0, db_capacity = 0,
                   db_dimensions = ?dims, db_metric = ?metric\<rparr>"
      show ?thesis
      proof (cases "length f < 24 \<or> le_value (take 4 f) \<noteq> 0x56444230")
        case True
        with a Some f show ?thesis by (simp add: vdb_load_parsed)
      next
        case hdr: False
        obtain r1 h1 where c: "vdb_create h ?dims ?metric = (r1, h1)"
          by (cases "vdb_create h ?dims ?metric")
        from create_blocks[OF c] show ?thesis
        proof (elim disjE conjE)
          assume "r1 = None" "live h1 = live h"
          with a Some f hdr c show ?thesis by (simp add: vdb_load_parsed)
        next
          assume r1: "r1 = Some ?db0" and l: "live h1 = live h + 1"
          with a Some f hdr c
          have "load_loop ?dims (le_value (take 8 (drop 12 f))) h1 (drop 24 f) ?db0 = Inr (r, h')"
            by (simp add: vdb_load_parsed)
          from load_loop_result[OF this] l hdr Some f show ?thesis
            by (auto simp: blocks_def)
        qed
      qed
    qed
  qed
qed

text \<open>The 32-byte file of one record, and a file of three bytes.\<close>

theorem load_complete_or_absent_witness:
  "vdb_load heap0 (fs0\<lparr>contents := (contents fs0)(''db.vdb'' \<mapsto> file_empty_id)\<rparr>) (Some ''db.vdb'') =
     Inr (Some (db_empty_id\<lparr>db_vectors :=
                   no_vectors(0 := \<lparr>v_data = [f1], v_id = None, v_metadata = None\<rparr>)\<rparr>),
          \<lparr>outcomes = [], live = 3\<rparr>) \<and>
   blocks (db_empty_id\<lparr>db_vectors :=
             no_vectors(0 := \<lparr>v_data = [f1], v_id = None, v_metadata = None\<rparr>)\<rparr>) = 3 \<and>
   contents (fs0\<lparr>contents := (contents fs0)(''x'' \<mapsto> [1, 2, 3])\<rparr>) ''x'' = Some [1, 2, 3] \<and>
   length [1, 2, 3 :: byte] < 4 \<and>
   vdb_load heap0 (fs0\<lparr>contents := (contents fs0)(''x'' \<mapsto> [1, 2, 3])\<rparr>) (Some ''x'')
     = Inr (None, heap0)"
proof -
  have "live \<lparr>outcomes = [], live = 3\<rparr> = live heap0 +
      blocks (db_empty_id\<lparr>db_vectors :=
             no_vectors(0 := \<lparr>v_data = [f1], v_id = None, v_metadata = None\<rparr>)\<rparr>)"
    using load_complete_or_absent[of heap0
        "fs0\<lparr>contents := (contents fs0)(''db.vdb'' \<mapsto> file_empty_id)\<rparr>" "Some ''db.vdb''"
        "Some (db_empty_id\<lparr>db_vectors :=
             no_vectors(0 := \<lparr>v_data = [f1], v_id = None, v_metadata = None\<rparr>)\<rparr>)"
        "\<lparr>outcomes = [], live = 3\<rparr>"] load_empty_id
    by auto
  moreover have "vdb_load heap0 (fs0\<lparr>contents := (contents fs0)(''x'' \<mapsto> [1, 2, 3])\<rparr>) (Some ''x'')
     = Inr (None, heap0)"
    using load_complete_or_absent[where fs = "fs0\<lparr>contents := (contents fs0)(''x'' \<mapsto> [1, 2, 3])\<rparr>"
        and name = "''x''" and f = "[1, 2, 3]" and h = heap0]
    by simp
  ultimately show ?thesis
    using load_empty_id by (simp add: heap0_def)
qed

subsection \<open>Reachable databases are well formed\<close>

lemma well_formed_iff:
  "well_formed d \<longleftrightarrow>
     (\<forall>i. i < db_count d \<longrightarrow> length (v_data (db_vectors d i)) = db_dimensions d \<and>
        (case v_id (db_vectors d i) of None \<Rightarrow> True | Some s \<Rightarrow> 0 \<notin> set s))"
  by (auto simp: well_formed_def list_all_iff)

lemma no_nul_take_strlen: "0 \<notin> set (take (strlen s) s)"
  unfolding take_strlen by (auto dest: set_takeWhileD)

lemma add_vector_dimensions:
  assumes "vdb_add_vector h (Some d) data id_str md = Inr (err, Some d', h')"
  shows "db_dimensions d' = db_dimensions d \<and> db_metric d' = db_metric d"
proof (cases data)
  case None
  with assms show ?thesis by (simp add: add_vector_null)
next
  case (Some buf)
  from add_vector_Inr[OF assms[unfolded Some]] show ?thesis
    by (elim disjE exE conjE) simp_all
qed

lemma add_vector_well_formed:
  assumes a: "vdb_add_vector h (Some d) data id_str md = Inr (err, Some d', h')"
    and w: "well_formed d" and dims: "db_dimensions d < 2 ^ 62"
  shows "well_formed d' \<and> db_dimensions d' = db_dimensions d"
proof (cases data)
  case None
  with a w show ?thesis by (simp add: add_vector_null)
next
  case (Some buf)
  have n: "(db_dimensions d * 4) mod 2 ^ 64 div 4 = db_dimensions d"
    using dims by simp
  from add_vector_Inr[OF a[unfolded Some]] show ?thesis
  proof (elim disjE exE conjE)
    fix c assume "Some d' = Some (d\<lparr>db_capacity := c\<rparr>)"
    then have "d' = d\<lparr>db_capacity := c\<rparr>" by simp
    with w show ?thesis by (simp add: well_formed_iff)
  next
    fix c assume "Some d' = Some (d\<lparr>db_capacity := c\<rparr>)"
    then have "d' = d\<lparr>db_capacity := c\<rparr>" by simp
    with w show ?thesis by (simp add: well_formed_iff)
  next
    let ?v = "\<lparr>v_data = take ((db_dimensions d * 4) mod 2 ^ 64 div 4) buf,
               v_id = map_option (\<lambda>s. take (strlen s) s) id_str, v_metadata = md\<rparr>"
    assume d': "Some d' = Some (d\<lparr>db_capacity := (if db_capacity d \<le> db_count d then new_capacity d
                                           else db_capacity d),
                      db_vectors := (db_vectors d)(db_count d := ?v),
                      db_count := db_count d + 1\<rparr>)"
      and len: "(db_dimensions d * 4) mod 2 ^ 64 div 4 \<le> length buf"
    have "length (v_data ?v) = db_dimensions d" using len n by simp
    moreover have "case v_id ?v of None \<Rightarrow> True | Some s \<Rightarrow> 0 \<notin> set s"
      by (cases id_str) (simp_all add: no_nul_take_strlen)
    ultimately show ?thesis
      using d' w by (auto simp: well_formed_iff less_Suc_eq)
  qed
qed

lemma remove_vector_well_formed:
  assumes "vdb_remove_vector h (Some d) index = (err, Some d', h')" and "well_formed d"
  shows "well_formed d' \<and> db_dimensions d' = db_dimensions d"
  using assms
  by (auto simp: vdb_remove_vector_def Let_def well_formed_iff split: if_splits)

text \<open>
  Every database reached through \<^verbatim>\<open>vdb_create\<close>, \<^verbatim>\<open>vdb_add_vector\<close> and
  \<^verbatim>\<open>vdb_remove_vector\<close>, with a dimension count whose byte size fits \<^verbatim>\<open>size_t\<close>, holds
  exactly \<open>dimensions\<close> floats in every live record and identifiers without a NUL byte.
\<close>

theorem reachable_well_formed:
  "reachable d \<Longrightarrow> db_dimensions d < 2 ^ 62 \<Longrightarrow> well_formed d"
proof (induction rule: reachable.induct)
  case (created h dimensions metric d h')
  then show ?case
    by (auto simp: vdb_create_def split_beta well_formed_iff split: if_splits)
next
  case (added d h data id_str metadata err d' h')
  have "db_dimensions d' = db_dimensions d"
    using add_vector_dimensions[OF added.hyps(2)] by simp
  with added show ?case
    using add_vector_well_formed[OF added.hyps(2)] by simp
next
  case (removed d h index err d' h')
  have "db_dimensions d' = db_dimensions d"
    using removed.hyps(2) by (auto simp: vdb_remove_vector_def Let_def split: if_splits)
  with removed show ?case
    using remove_vector_well_formed[OF removed.hyps(2)] by simp
qed

text \<open>The fresh store after its first insertion.\<close>

theorem reachable_well_formed_witness:
  "reachable (db_new\<lparr>db_capacity := 16, db_vectors := no_vectors(0 := rec_a), db_count := 1\<rparr>) \<and>
   db_dimensions (db_new\<lparr>db_capacity := 16, db_vectors := no_vectors(0 := rec_a), db_count := 1\<rparr>)
     < 2 ^ 62 \<and>
   well_formed (db_new\<lparr>db_capacity := 16, db_vectors := no_vectors(0 := rec_a), db_count := 1\<rparr>)"
proof -
  have r0: "reachable db_new"
    by (rule reachable.created[of heap0 2 VDB_METRIC_DOT_PRODUCT _ "\<lparr>outcomes = [], live = 1\<rparr>"])
       (simp add: vdb_create_def heap0_def db_new_def VDB_MALLOC_def)
  have r: "reachable (db_new\<lparr>db_capacity := 16, db_vectors := no_vectors(0 := rec_a), db_count := 1\<rparr>)"
    by (rule reachable.added[OF r0 add_first])
  have d: "db_dimensions (db_new\<lparr>db_capacity := 16, db_vectors := no_vectors(0 := rec_a),
             db_count := 1\<rparr>) < 2 ^ 62"
    by (simp add: db_new_def)
  from reachable_well_formed[OF r d] r d show ?thesis by simp
qed

subsection \<open>Search results are records of the database\<close>

text \<open>
  Every result of a search names a live slot, carries the distance from the query to the
  vector of that slot and the identifier and attachment of that slot; no slot is returned
  twice.
\<close>

theorem search_returns_records:
  assumes "qsort_contract qsort" and "never_fails h" and "in_bounds d q"
    and "vdb_search qsort h (Some d) (Some q) k = Inr (Some rs, h')"
  shows "distinct (map r_index (rs_results rs)) \<and>
         (\<forall>r\<in>set (rs_results rs).
            r_index r < db_count d \<and>
            vdb_compute_distance q (v_data (db_vectors d (r_index r))) (db_dimensions d) (db_metric d)
              = Inr (r_distance r) \<and>
            r_id r = v_id (db_vectors d (r_index r)) \<and>
            r_metadata r = v_metadata (db_vectors d (r_index r)))"
proof -
  let ?scored = "map (score d q) [0..<db_count d]"
  let ?sorted = "qsort vdb_result_compare ?scored"
  have k: "0 < k" "0 < db_count d"
    using assms(4) by (auto simp: vdb_search_def split: if_splits)
  from search_result[OF assms(2,3) k, of qsort] assms(4)
  have rs: "rs_results rs = take (min k (db_count d)) ?sorted"
    by auto
  have m: "mset ?sorted = mset ?scored"
    using qsort_sorted(2)[OF assms(1)] .
  have "map r_index ?scored = [0..<db_count d]"
    by (simp add: score_def comp_def map_idI)
  then have "distinct (map r_index ?scored)" by simp
  moreover have "mset (map r_index ?sorted) = mset (map r_index ?scored)"
    using m by (metis mset_map)
  ultimately have "distinct (map r_index ?sorted)"
    by (metis mset_eq_imp_distinct_iff)
  then have dist: "distinct (map r_index (rs_results rs))"
    unfolding rs by (simp add: take_map[symmetric] distinct_take)
  have "set (rs_results rs) \<subseteq> set ?scored"
    unfolding rs using m set_take_subset[of "min k (db_count d)" ?sorted]
    by (metis mset_eq_setD)
  then have "\<forall>r\<in>set (rs_results rs). \<exists>i<db_count d. r = score d q i"
    by fastforce
  then have "\<forall>r\<in>set (rs_results rs).
            r_index r < db_count d \<and>
            vdb_compute_distance q (v_data (db_vectors d (r_index r))) (db_dimensions d) (db_metric d)
              = Inr (r_distance r) \<and>
            r_id r = v_id (db_vectors d (r_index r)) \<and>
            r_metadata r = v_metadata (db_vectors d (r_index r))"
    using in_bounds_distance[OF assms(3)] by (auto simp: score_def)
  with dist show ?thesis by simp
qed

text \<open>The two nearest of the three records: slots 2 and 0.\<close>

theorem search_returns_records_witness:
  "qsort_contract insertion_sort \<and> never_fails heap0 \<and> in_bounds db_abc [f1, f0] \<and>
   vdb_search insertion_sort heap0 (Some db_abc) (Some [f1, f0]) 2 =
     Inr (Some \<lparr>rs_results =
                  [\<lparr>r_index = 2, r_distance = - 2, r_id = None, r_metadata = None\<rparr>,
                   \<lparr>r_index = 0, r_distance = - 1, r_id = Some [0x61], r_metadata = Some 7\<rparr>],
                rs_count = 2\<rparr>,
          \<lparr>outcomes = [], live = 2\<rparr>) \<and>
   distinct (map r_index
     [\<lparr>r_index = 2, r_distance = - 2, r_id = None, r_metadata = None\<rparr>,
      \<lparr>r_index = 0, r_distance = - 1, r_id = Some [0x61], r_metadata = Some 7\<rparr>])"
  using search_returns_records[OF insertion_sort_contract never_fails_heap0 in_bounds_abc search_abc]
    insertion_sort_contract never_fails_heap0 in_bounds_abc search_abc
  by simp


end
